theory Spec2Isabelle
  imports
    Main
    "HOL-Library.Sublist"
    "HOL-Library.Char_ord"
    "HOL-Library.List_Lexorder"
begin

section \<open>The filesystem\<close>

text \<open>
  \<^verbatim>\<open>claude_skill_sync.py\<close> works on \<^verbatim>\<open>pathlib.Path\<close> values and on the local
  filesystem through \<^verbatim>\<open>pathlib\<close> and \<^verbatim>\<open>shutil\<close>. A path is the list of its segments
  below the filesystem root (so \<open>[]\<close> is \<^verbatim>\<open>/\<close>); all paths are absolute and
  already expanded. The filesystem holds regular files (with their content) and
  directories; symbolic links, permissions and I/O failures are outside the model,
  and so are the limits of the system and of the interpreter (path length, recursion
  depth), but where a copy runs into them by itself: see \<open>nested_copy\<close> below.

  The filesystem is a table from paths to entries, written as an association list so
  that directories can be enumerated. Python compares \<^verbatim>\<open>Path\<close> values segment by
  segment and strings code point by code point: this is the lexicographic order on
  \<open>string list\<close>.
\<close>

type_synonym path = "string list"

datatype entry = File string | Directory

type_synonym filesystem = "(path \<times> entry) list"

text \<open>
  The exceptions. \<^verbatim>\<open>RecursionError\<close> is a subclass of \<^verbatim>\<open>RuntimeError\<close>, as is the
  exception that \<^verbatim>\<open>copy_skill\<close> raises itself; the others are subclasses of
  \<^verbatim>\<open>OSError\<close>.
\<close>

datatype error =
    Aborted               \<comment> \<open>\<^verbatim>\<open>RuntimeError("Aborted on conflict.")\<close>\<close>
  | RecursionError
  | FileNotFoundError
  | NotADirectoryError
  | FileExistsError
  | ShutilError           \<comment> \<open>\<^verbatim>\<open>shutil.Error\<close>\<close>

definition is_RuntimeError :: "error \<Rightarrow> bool" where
  "is_RuntimeError e \<longleftrightarrow> e = Aborted \<or> e = RecursionError"

definition lookup :: "filesystem \<Rightarrow> path \<Rightarrow> entry option" where
  "lookup fs p = map_of fs p"

definition path_exists :: "filesystem \<Rightarrow> path \<Rightarrow> bool" where
  "path_exists fs p \<longleftrightarrow> lookup fs p \<noteq> None"

definition is_dir :: "filesystem \<Rightarrow> path \<Rightarrow> bool" where
  "is_dir fs p \<longleftrightarrow> lookup fs p = Some Directory"

definition is_file :: "filesystem \<Rightarrow> path \<Rightarrow> bool" where
  "is_file fs p \<longleftrightarrow> (case lookup fs p of Some (File c) \<Rightarrow> True | _ \<Rightarrow> False)"

text \<open>\<^verbatim>\<open>Path.name\<close>: the last segment, the empty string for the root.\<close>

definition name :: "path \<Rightarrow> string" where
  "name p = (if p = [] then [] else last p)"

text \<open>\<^verbatim>\<open>Path.parent\<close>: the root is its own parent.\<close>

definition parent :: "path \<Rightarrow> path" where
  "parent p = butlast p"

text \<open>\<^verbatim>\<open>p / n\<close> for a single segment \<open>n\<close>: joining the empty string changes nothing.\<close>

definition joinpath :: "path \<Rightarrow> string \<Rightarrow> path" where
  "joinpath p n = (if n = [] then p else p @ [n])"

text \<open>\<^verbatim>\<open>s.startswith(".")\<close>\<close>

definition startswith_dot :: "string \<Rightarrow> bool" where
  "startswith_dot s = (case s of [] \<Rightarrow> False | c # _ \<Rightarrow> c = CHR ''.'')"

text \<open>
  \<^verbatim>\<open>root.iterdir()\<close>: the direct children of a directory, each once; it raises on a
  path that is missing or not a directory.
\<close>

definition iterdir :: "filesystem \<Rightarrow> path \<Rightarrow> error + path list" where
  "iterdir fs root =
     (case lookup fs root of
        None \<Rightarrow> Inl FileNotFoundError
      | Some (File c) \<Rightarrow> Inl NotADirectoryError
      | Some Directory \<Rightarrow>
          Inr (remdups (filter (\<lambda>p. p \<noteq> [] \<and> parent p = root) (map fst fs))))"

text \<open>
  \<^verbatim>\<open>root.rglob(n)\<close>: every path strictly below \<open>root\<close> whose last segment is \<open>n\<close>,
  whether it is a file or a directory; nothing when \<open>root\<close> is not a directory.
\<close>

definition rglob :: "filesystem \<Rightarrow> path \<Rightarrow> string \<Rightarrow> path list" where
  "rglob fs root n =
     (if is_dir fs root
      then remdups (filter (\<lambda>p. strict_prefix root p \<and> name p = n) (map fst fs))
      else [])"

text \<open>
  A filesystem is well formed when no path is listed twice, the root is a directory
  and the parent of every entry is a directory.
\<close>

definition wf_fs :: "filesystem \<Rightarrow> bool" where
  "wf_fs fs \<longleftrightarrow>
     distinct (map fst fs) \<and> is_dir fs [] \<and> list_all (\<lambda>p. is_dir fs (parent p)) (map fst fs)"

section \<open>Directory scanner\<close>

text \<open>
  \<^verbatim>\<open>list_skill_dirs(root, recursive)\<close>. The recursive branch sorts the marker paths,
  takes the parent of each and drops it when a segment of its path relative to
  \<open>root\<close> starts with a dot. The direct branch sorts the children of \<open>root\<close>, drops
  the hidden ones and keeps the directories that hold a file \<^verbatim>\<open>SKILL.md\<close>.
\<close>

definition list_skill_dirs :: "filesystem \<Rightarrow> path \<Rightarrow> bool \<Rightarrow> error + path list" where
  "list_skill_dirs fs root recursive =
     (if recursive then
        Inr (filter (\<lambda>skill_dir. \<not> list_ex startswith_dot (drop (length root) skill_dir))
               (map parent (sort (rglob fs root ''SKILL.md''))))
      else
        (case iterdir fs root of
           Inl e \<Rightarrow> Inl e
         | Inr entries \<Rightarrow>
             Inr (filter (\<lambda>entry. \<not> startswith_dot (name entry) \<and>
                                   is_dir fs entry \<and> is_file fs (joinpath entry ''SKILL.md''))
                    (sort entries))))"

section \<open>Console and process state\<close>

text \<open>
  Every \<^verbatim>\<open>print\<close> of the script is one message constructor that carries the values
  the source interpolates into the text; an event records where it went. \<^verbatim>\<open>input\<close>
  shows its prompt and reads the next line of standard input: \<open>stdin w n\<close> is the
  \<open>n\<close>-th line still unread, \<open>None\<close> when the input has ended there
  (\<^verbatim>\<open>EOFError\<close>).

  One effect is not computed but taken from the environment. A \<^verbatim>\<open>shutil.copytree\<close>
  whose destination lies deeper inside its source never completes: it copies its own
  output, level after level, until the interpreter's recursion limit is reached
  (\<^verbatim>\<open>RecursionError\<close>) or, with longer names, until the system refuses the paths
  (\<^verbatim>\<open>shutil.Error\<close>). Which of the two ends it, and what it has written by then,
  depends on these limits and on the order in which the system lists directories:
  \<open>nested_copy w fs src dst\<close> says whether the recursion limit comes first and gives
  the files that such a copy from \<open>src\<close> to \<open>dst\<close> leaves, started on \<open>fs\<close>. Nothing
  ever changes this field.
\<close>

datatype mode = Copy | Sync

datatype policy = Ask | Skip | Overwrite | Abort

datatype action = DoCopy | DoOverwrite | DoSkip

datatype message =
    PruneOnlyValidWithSync
  | SkippingMissingSource path
  | SkippingNonDirectorySource path
  | NoValidSourcesFound
  | NoSkillsFound
  | WouldCreateDestination path
  | SourcesHeader
  | SourceLine path bool
  | DestinationLine path
  | SettingsLine mode policy bool
  | SkillsFound nat
  | ActionLine action string path
  | AbortedOnConflict
  | RecursionDepthExceeded
  | NothingToPrune
  | Summary nat nat nat "nat option"
  | ConflictDefaultsToSkip string
  | NoInteractiveInput
  | PleaseChoose
  | PruneLine string path

datatype event = Stdout message | Stderr message | Prompt string path

record world =
  nested_copy :: "filesystem \<Rightarrow> path \<Rightarrow> path \<Rightarrow> bool \<times> filesystem"
  files :: filesystem
  stdin :: "nat \<Rightarrow> string option"
  console :: "event list"

definition emit :: "event \<Rightarrow> world \<Rightarrow> world" where
  "emit ev w = w\<lparr>console := console w @ [ev]\<rparr>"

definition consume_line :: "world \<Rightarrow> world" where
  "consume_line w = w\<lparr>stdin := (\<lambda>n. stdin w (Suc n))\<rparr>"

section \<open>Filesystem primitives of \<^verbatim>\<open>shutil\<close> and \<^verbatim>\<open>os\<close>\<close>

text \<open>\<^verbatim>\<open>shutil.rmtree(p)\<close> removes a directory and everything below it.\<close>

definition rmtree :: "filesystem \<Rightarrow> path \<Rightarrow> error + filesystem" where
  "rmtree fs p =
     (case lookup fs p of
        None \<Rightarrow> Inl FileNotFoundError
      | Some (File c) \<Rightarrow> Inl NotADirectoryError
      | Some Directory \<Rightarrow> Inr (filter (\<lambda>qe. \<not> prefix p (fst qe)) fs))"

text \<open>
  \<^verbatim>\<open>os.makedirs(p, exist_ok)\<close>, also \<^verbatim>\<open>Path.mkdir(parents=True, exist_ok)\<close>: creates
  \<open>p\<close> and its missing ancestors. It fails below a regular file, and on an existing
  \<open>p\<close> unless \<open>exist_ok\<close> is set and \<open>p\<close> is a directory.
\<close>

definition makedirs :: "filesystem \<Rightarrow> path \<Rightarrow> bool \<Rightarrow> error + filesystem" where
  "makedirs fs p exist_ok =
     (if list_ex (is_file fs) (butlast (prefixes p)) then Inl NotADirectoryError
      else if path_exists fs p \<and> \<not> (exist_ok \<and> is_dir fs p) then Inl FileExistsError
      else Inr (fs @ map (\<lambda>q. (q, Directory)) (filter (\<lambda>q. \<not> path_exists fs q) (prefixes p))))"

text \<open>
  \<^verbatim>\<open>shutil.copytree(src, dst)\<close> lists \<open>src\<close>, creates \<open>dst\<close> (which must not exist)
  with its missing ancestors, and copies what it listed, directory by directory. When
  \<open>dst\<close> lies deeper inside \<open>src\<close>, below a child of \<open>src\<close> that already exists, the
  copy descends into its own output; the exception that ends it and the files it
  leaves are those that the environment gives, \<open>nested\<close>. The result is \<open>Inr\<close> of the
  files after the copy, or \<open>Inl\<close> of the exception and the files left; every other
  failure comes before anything is written.
\<close>

definition copytree ::
    "(filesystem \<Rightarrow> path \<Rightarrow> path \<Rightarrow> bool \<times> filesystem) \<Rightarrow> filesystem \<Rightarrow> path \<Rightarrow> path
       \<Rightarrow> (error \<times> filesystem) + filesystem" where
  "copytree nested fs src dst =
     (case lookup fs src of
        None \<Rightarrow> Inl (FileNotFoundError, fs)
      | Some (File c) \<Rightarrow> Inl (NotADirectoryError, fs)
      | Some Directory \<Rightarrow>
          (case makedirs fs dst False of
             Inl e \<Rightarrow> Inl (e, fs)
           | Inr fs' \<Rightarrow>
               if strict_prefix src (parent dst) \<and> path_exists fs (take (Suc (length src)) dst)
               then (case nested fs src dst of
                       (recursion, left) \<Rightarrow>
                         Inl (if recursion then RecursionError else ShutilError, left))
               else Inr (fs' @ map (\<lambda>qe. (dst @ drop (length src) (fst qe), snd qe))
                                 (filter (\<lambda>qe. strict_prefix src (fst qe)) fs))))"

section \<open>Conflict resolver\<close>

text \<open>
  \<^verbatim>\<open>str.strip()\<close> and \<^verbatim>\<open>str.lower()\<close> on characters with code points below 256, the
  range of \<^typ>\<open>char\<close>.
\<close>

definition isspace :: "char \<Rightarrow> bool" where
  "isspace c \<longleftrightarrow> (of_char c :: nat) \<in> set [9, 10, 11, 12, 13, 28, 29, 30, 31, 32, 133, 160]"

definition strip :: "string \<Rightarrow> string" where
  "strip s = rev (dropWhile isspace (rev (dropWhile isspace s)))"

definition lower_char :: "char \<Rightarrow> char" where
  "lower_char c =
     (let n = (of_char c :: nat)
      in if (65 \<le> n \<and> n \<le> 90) \<or> (192 \<le> n \<and> n \<le> 222 \<and> n \<noteq> 215) then char_of (n + 32) else c)"

definition lower :: "string \<Rightarrow> string" where
  "lower s = map lower_char s"

text \<open>
  The \<^verbatim>\<open>while True\<close> loop of \<^verbatim>\<open>resolve_conflict\<close>. It returns only at a recognised
  answer or at the end of input, so it is a partial function: \<open>None\<close> is a run that
  prompts forever.
\<close>

partial_function (option) prompt_loop :: "path \<Rightarrow> world \<Rightarrow> (policy \<times> world) option" where
  "prompt_loop dest_dir w =
     (let w1 = emit (Prompt (name dest_dir) dest_dir) w in
      case stdin w1 0 of
        None \<Rightarrow> Some (Abort, emit (Stderr NoInteractiveInput) w1)
      | Some line \<Rightarrow>
          (let w2 = consume_line w1; response = lower (strip line) in
           if response \<in> set [''o'', ''overwrite'', ''y'', ''yes''] then Some (Overwrite, w2)
           else if response \<in> set [''s'', ''skip'', [], ''n'', ''no''] then Some (Skip, w2)
           else if response \<in> set [''a'', ''abort'', ''q'', ''quit''] then Some (Abort, w2)
           else prompt_loop dest_dir (emit (Stdout PleaseChoose) w2)))"

declare prompt_loop.simps [code]

definition resolve_conflict :: "path \<Rightarrow> policy \<Rightarrow> bool \<Rightarrow> world \<Rightarrow> (policy \<times> world) option" where
  "resolve_conflict dest_dir policy dry_run w =
     (if policy \<noteq> Ask then Some (policy, w)
      else if dry_run then Some (Skip, emit (Stdout (ConflictDefaultsToSkip (name dest_dir))) w)
      else prompt_loop dest_dir w)"

section \<open>Copy step\<close>

text \<open>Lines 147 to 151 of \<^verbatim>\<open>copy_skill\<close>: the copy itself, unless this is a dry run.\<close>

definition copy_skill_apply ::
    "path \<Rightarrow> path \<Rightarrow> action \<Rightarrow> bool \<Rightarrow> world \<Rightarrow> (error + action) \<times> world" where
  "copy_skill_apply src_dir dest_dir act dry_run w =
     (if dry_run then (Inr act, w)
      else (case copytree (nested_copy w) (files w) src_dir dest_dir of
              Inl (e, left) \<Rightarrow> (Inl e, w\<lparr>files := left\<rparr>)
            | Inr fs' \<Rightarrow> (Inr act, w\<lparr>files := fs'\<rparr>)))"

text \<open>
  \<^verbatim>\<open>copy_skill\<close>. The result is \<open>Inl\<close> of the exception raised or \<open>Inr\<close> of the action
  returned. A decision that is none of skip, abort and overwrite falls through to
  the copy, as in the source.
\<close>

definition copy_skill ::
    "path \<Rightarrow> path \<Rightarrow> policy \<Rightarrow> bool \<Rightarrow> world \<Rightarrow> ((error + action) \<times> world) option" where
  "copy_skill src_dir dest_root conflict_policy dry_run w =
     (let dest_dir = joinpath dest_root (name src_dir) in
      if path_exists (files w) dest_dir then
        (case resolve_conflict dest_dir conflict_policy dry_run w of
           None \<Rightarrow> None
         | Some (decision, w1) \<Rightarrow>
             if decision = Skip then Some (Inr DoSkip, w1)
             else if decision = Abort then Some (Inl Aborted, w1)
             else if decision = Overwrite then
               (if \<not> dry_run then
                  (case rmtree (files w1) dest_dir of
                     Inl e \<Rightarrow> Some (Inl e, w1)
                   | Inr fs' \<Rightarrow>
                       Some (copy_skill_apply src_dir dest_dir DoOverwrite dry_run (w1\<lparr>files := fs'\<rparr>)))
                else Some (copy_skill_apply src_dir dest_dir DoOverwrite dry_run w1))
             else Some (copy_skill_apply src_dir dest_dir DoCopy dry_run w1))
      else Some (copy_skill_apply src_dir dest_dir DoCopy dry_run w))"

section \<open>Pruning\<close>

text \<open>The \<^verbatim>\<open>for\<close> loop of \<^verbatim>\<open>prune_dest\<close> over the destination skills listed before it.\<close>

fun prune_loop ::
    "string set \<Rightarrow> bool \<Rightarrow> path list \<Rightarrow> nat \<Rightarrow> world \<Rightarrow> (error + nat) \<times> world" where
  "prune_loop source_names dry_run [] pruned w = (Inr pruned, w)"
| "prune_loop source_names dry_run (dest_skill # rest) pruned w =
     (if name dest_skill \<in> source_names then prune_loop source_names dry_run rest pruned w
      else if dry_run then
        prune_loop source_names dry_run rest (pruned + 1)
          (emit (Stdout (PruneLine (name dest_skill) dest_skill)) w)
      else
        (case rmtree (files w) dest_skill of
           Inl e \<Rightarrow> (Inl e, w)
         | Inr fs' \<Rightarrow> prune_loop source_names dry_run rest (pruned + 1) (w\<lparr>files := fs'\<rparr>)))"

definition prune_dest :: "string set \<Rightarrow> path \<Rightarrow> bool \<Rightarrow> world \<Rightarrow> (error + nat) \<times> world" where
  "prune_dest source_names dest_root dry_run w =
     (case list_skill_dirs (files w) dest_root False of
        Inl e \<Rightarrow> (Inl e, w)
      | Inr dest_skills \<Rightarrow> prune_loop source_names dry_run dest_skills 0 w)"

section \<open>Synchronizer\<close>

text \<open>
  The parsed command line. \<^verbatim>\<open>argparse\<close> restricts \<^verbatim>\<open>--mode\<close> and \<^verbatim>\<open>--conflict\<close>
  to their choices, so both are enumerations.
\<close>

record config =
  source :: path
  extra_source :: "path list"
  recursive :: bool
  include_official_plugins :: bool
  dest :: path
  mode :: mode
  conflict :: policy
  dry_run :: bool
  prune :: bool

text \<open>\<^verbatim>\<open>OFFICIAL_PLUGIN_ROOTS\<close>, below the home directory that \<^verbatim>\<open>~\<close> expands to.\<close>

definition OFFICIAL_PLUGIN_ROOTS :: "path \<Rightarrow> path list" where
  "OFFICIAL_PLUGIN_ROOTS home =
     [home @ [''.claude'', ''plugins'', ''marketplaces'', ''claude-plugins-official'', ''plugins''],
      home @ [''.claude'', ''plugins'', ''marketplaces'', ''claude-plugins-official'',
              ''external_plugins'']]"

text \<open>Lines 180 to 185: the source roots, each with its scan mode.\<close>

definition build_sources :: "path \<Rightarrow> config \<Rightarrow> (path \<times> bool) list" where
  "build_sources home args =
     [(source args, recursive args)]
     @ map (\<lambda>extra. (extra, recursive args)) (extra_source args)
     @ (if include_official_plugins args
        then map (\<lambda>plugin_root. (plugin_root, True)) (OFFICIAL_PLUGIN_ROOTS home)
        else [])"

text \<open>Lines 187 to 195: roots that are missing or not directories are reported and dropped.\<close>

fun validate_sources :: "(path \<times> bool) list \<Rightarrow> world \<Rightarrow> (path \<times> bool) list \<times> world" where
  "validate_sources [] w = ([], w)"
| "validate_sources ((p, r) # rest) w =
     (if \<not> path_exists (files w) p then
        validate_sources rest (emit (Stderr (SkippingMissingSource p)) w)
      else if \<not> is_dir (files w) p then
        validate_sources rest (emit (Stderr (SkippingNonDirectorySource p)) w)
      else
        (case validate_sources rest w of (valid, w') \<Rightarrow> ((p, r) # valid, w')))"

text \<open>Lines 201 to 203: the skills of all valid roots, in order.\<close>

fun scan_sources :: "filesystem \<Rightarrow> (path \<times> bool) list \<Rightarrow> error + path list" where
  "scan_sources fs [] = Inr []"
| "scan_sources fs ((p, r) # rest) =
     (case list_skill_dirs fs p r of
        Inl e \<Rightarrow> Inl e
      | Inr found \<Rightarrow>
          (case scan_sources fs rest of
             Inl e \<Rightarrow> Inl e
           | Inr others \<Rightarrow> Inr (found @ others)))"

text \<open>Lines 208 to 212: the destination is created unless this is a dry run.\<close>

definition ensure_dest :: "path \<Rightarrow> bool \<Rightarrow> world \<Rightarrow> (error + unit) \<times> world" where
  "ensure_dest dest_root dry w =
     (if \<not> path_exists (files w) dest_root then
        (if dry then (Inr (), emit (Stdout (WouldCreateDestination dest_root)) w)
         else (case makedirs (files w) dest_root True of
                 Inl e \<Rightarrow> (Inl e, w)
               | Inr fs' \<Rightarrow> (Inr (), w\<lparr>files := fs'\<rparr>)))
      else (Inr (), w))"

text \<open>Lines 214 to 220: the report of the settings.\<close>

definition print_settings :: "config \<Rightarrow> (path \<times> bool) list \<Rightarrow> nat \<Rightarrow> world \<Rightarrow> world" where
  "print_settings args valid_sources found w =
     w\<lparr>console := console w
          @ [Stdout SourcesHeader]
          @ map (\<lambda>pr. Stdout (SourceLine (fst pr) (snd pr))) valid_sources
          @ [Stdout (DestinationLine (dest args)),
             Stdout (SettingsLine (mode args) (conflict args) (dry_run args)),
             Stdout (SkillsFound found)]\<rparr>"

text \<open>
  Lines 224 to 232: the loop over the skills. It stops at the first exception of
  \<^verbatim>\<open>copy_skill\<close>; otherwise the action is counted and its line printed.
\<close>

fun copy_loop ::
    "path list \<Rightarrow> path \<Rightarrow> policy \<Rightarrow> bool \<Rightarrow> (action \<Rightarrow> nat) \<Rightarrow> world
       \<Rightarrow> ((error + (action \<Rightarrow> nat)) \<times> world) option" where
  "copy_loop [] dest_root pol dry counts w = Some (Inr counts, w)"
| "copy_loop (skill_dir # rest) dest_root pol dry counts w =
     (case copy_skill skill_dir dest_root pol dry w of
        None \<Rightarrow> None
      | Some (Inl e, w1) \<Rightarrow> Some (Inl e, w1)
      | Some (Inr act, w1) \<Rightarrow>
          copy_loop rest dest_root pol dry (counts(act := counts act + 1))
            (emit (Stdout (ActionLine act (name skill_dir) (joinpath dest_root (name skill_dir)))) w1))"

text \<open>Lines 237 to 246: pruning, only in sync mode with \<^verbatim>\<open>--prune\<close>.\<close>

definition prune_step :: "config \<Rightarrow> path list \<Rightarrow> world \<Rightarrow> (error + nat) \<times> world" where
  "prune_step args skills w =
     (if mode args = Sync \<and> prune args then
        (if \<not> path_exists (files w) (dest args) then (Inr 0, emit (Stdout NothingToPrune) w)
         else prune_dest (name ` set skills) (dest args) (dry_run args) w)
      else (Inr 0, w))"

text \<open>
  Lines 222 to 255: the copies, the pruning and the summary. A \<^verbatim>\<open>RuntimeError\<close> of
  the loop (the abort of \<^verbatim>\<open>copy_skill\<close>, or a \<^verbatim>\<open>RecursionError\<close> of \<^verbatim>\<open>copytree\<close>) is
  caught, its text printed, and turned into exit code 2; any other exception leaves
  \<^verbatim>\<open>main\<close>.
\<close>

definition sync_skills :: "config \<Rightarrow> path list \<Rightarrow> world \<Rightarrow> ((error + nat) \<times> world) option" where
  "sync_skills args skills w =
     (case copy_loop skills (dest args) (conflict args) (dry_run args) (\<lambda>a. 0) w of
        None \<Rightarrow> None
      | Some (Inl e, w1) \<Rightarrow>
          if is_RuntimeError e then
            Some (Inr 2, emit (Stderr (if e = Aborted then AbortedOnConflict
                                       else RecursionDepthExceeded)) w1)
          else Some (Inl e, w1)
      | Some (Inr counts, w1) \<Rightarrow>
          (case prune_step args skills w1 of
             (Inl e, w2) \<Rightarrow> Some (Inl e, w2)
           | (Inr pruned, w2) \<Rightarrow>
               Some (Inr 0,
                     emit (Stdout (Summary (counts DoCopy) (counts DoOverwrite) (counts DoSkip)
                                     (if prune args then Some pruned else None))) w2)))"

text \<open>
  Lines 172 to 220 of \<^verbatim>\<open>main\<close>: everything before the copies. The result is \<open>Inl\<close>
  when \<^verbatim>\<open>main\<close> ends there, with the exit code returned or the exception that
  escapes, and \<open>Inr\<close> of the skills found when the run goes on.
\<close>

definition startup ::
    "path \<Rightarrow> config \<Rightarrow> world \<Rightarrow> ((error + nat) \<times> world) + (path list \<times> world)" where
  "startup home args w =
     (if prune args \<and> mode args \<noteq> Sync then
        Inl (Inr 1, emit (Stderr PruneOnlyValidWithSync) w)
      else
        (case validate_sources (build_sources home args) w of
           (valid_sources, w1) \<Rightarrow>
             if valid_sources = [] then Inl (Inr 1, emit (Stderr NoValidSourcesFound) w1)
             else
               (case scan_sources (files w1) valid_sources of
                  Inl e \<Rightarrow> Inl (Inl e, w1)
                | Inr skills \<Rightarrow>
                    if skills = [] then Inl (Inr 0, emit (Stdout NoSkillsFound) w1)
                    else
                      (case ensure_dest (dest args) (dry_run args) w1 of
                         (Inl e, w2) \<Rightarrow> Inl (Inl e, w2)
                       | (Inr u, w2) \<Rightarrow>
                           Inr (skills, print_settings args valid_sources (length skills) w2)))))"

text \<open>
  \<^verbatim>\<open>main\<close>. The result is \<open>None\<close> when the run never ends, \<open>Inr\<close> of the exit code
  when \<^verbatim>\<open>main\<close> returns and \<open>Inl\<close> of the exception when one escapes.
\<close>

definition main :: "path \<Rightarrow> config \<Rightarrow> world \<Rightarrow> ((error + nat) \<times> world) option" where
  "main home args w =
     (case startup home args w of
        Inl ended \<Rightarrow> Some ended
      | Inr (skills, w0) \<Rightarrow> sync_skills args skills w0)"

section \<open>Example states\<close>

text \<open>
  A small tree used to run the definitions: a source root \<^verbatim>\<open>/s\<close> with the skills
  \<^verbatim>\<open>a\<close> and \<^verbatim>\<open>b\<close>, a hidden directory that holds a marker and a directory
  without one, next to an empty destination \<^verbatim>\<open>/d\<close>.
\<close>

definition example_fs :: filesystem where
  "example_fs =
     [([], Directory),
      ([''s''], Directory),
      ([''s'', ''b''], Directory), ([''s'', ''b'', ''SKILL.md''], File ''B''),
      ([''s'', ''a''], Directory), ([''s'', ''a'', ''SKILL.md''], File ''A''),
      ([''s'', ''.h''], Directory), ([''s'', ''.h'', ''SKILL.md''], File ''H''),
      ([''s'', ''x''], Directory),
      ([''d''], Directory)]"

text \<open>An environment in which a copy into itself stops at the recursion limit before it
  has written anything.\<close>

definition stops_at_once :: "filesystem \<Rightarrow> path \<Rightarrow> path \<Rightarrow> bool \<times> filesystem" where
  "stops_at_once fs src dst = (True, fs)"

definition example_world :: world where
  "example_world = \<lparr>nested_copy = stops_at_once, files = example_fs, stdin = (\<lambda>n. None), console = []\<rparr>"

definition example_args :: config where
  "example_args =
     \<lparr>source = [''s''], extra_source = [], recursive = False, include_official_plugins = False,
      dest = [''d''], mode = Sync, conflict = Overwrite, dry_run = False, prune = True\<rparr>"

text \<open>A tree in which \<^verbatim>\<open>/r/x\<close> holds a directory, not a file, named \<^verbatim>\<open>SKILL.md\<close>.\<close>

definition marker_dir_fs :: filesystem where
  "marker_dir_fs =
     [([], Directory), ([''r''], Directory), ([''r'', ''x''], Directory),
      ([''r'', ''x'', ''SKILL.md''], Directory)]"

text \<open>Three inputs for the prompt: a wrong answer followed by a padded upper-case yes, a
  wrong answer followed by a padded upper-case quit, and a single answer with a
  leading blank.\<close>

definition typed_answers :: "nat \<Rightarrow> string option" where
  "typed_answers n = (if n = 0 then Some ''maybe'' else if n = 1 then Some '' YES '' else None)"

definition abort_answers :: "nat \<Rightarrow> string option" where
  "abort_answers n = (if n = 0 then Some ''what'' else if n = 1 then Some '' Q'' else None)"

definition padded_answer :: "nat \<Rightarrow> string option" where
  "padded_answer n = (if n = 0 then Some '' o'' else None)"

text \<open>
  A tree in which the destination already holds an older \<^verbatim>\<open>b\<close>, with one file more
  than the source has.
\<close>

definition conflict_fs :: filesystem where
  "conflict_fs =
     [([], Directory),
      ([''s''], Directory),
      ([''s'', ''a''], Directory), ([''s'', ''a'', ''SKILL.md''], File ''A''),
      ([''s'', ''b''], Directory), ([''s'', ''b'', ''SKILL.md''], File ''B''),
      ([''d''], Directory),
      ([''d'', ''b''], Directory), ([''d'', ''b'', ''SKILL.md''], File ''old''),
      ([''d'', ''b'', ''extra''], File ''x'')]"

definition conflict_world :: world where
  "conflict_world = \<lparr>nested_copy = stops_at_once, files = conflict_fs, stdin = (\<lambda>n. None), console = []\<rparr>"

text \<open>
  A tree whose destination holds a stale skill \<^verbatim>\<open>c\<close>, a hidden directory with a
  marker, a plain file and a directory without a marker; \<^verbatim>\<open>/e\<close> is an empty source.
\<close>

definition stale_fs :: filesystem where
  "stale_fs =
     [([], Directory),
      ([''s''], Directory),
      ([''s'', ''a''], Directory), ([''s'', ''a'', ''SKILL.md''], File ''A''),
      ([''e''], Directory),
      ([''d''], Directory),
      ([''d'', ''c''], Directory), ([''d'', ''c'', ''SKILL.md''], File ''C''),
      ([''d'', ''.sys''], Directory), ([''d'', ''.sys'', ''SKILL.md''], File ''S''),
      ([''d'', ''notes.txt''], File ''n''),
      ([''d'', ''plain''], Directory), ([''d'', ''plain'', ''f''], File ''p'')]"

definition stale_world :: world where
  "stale_world = \<lparr>nested_copy = stops_at_once, files = stale_fs, stdin = (\<lambda>n. None), console = []\<rparr>"



text \<open>A copy run with the policy \<^verbatim>\<open>skip\<close> on the first example, and the state it leaves.\<close>

definition copy_skip_args :: config where
  "copy_skip_args = example_args\<lparr>mode := Copy, conflict := Skip, prune := False\<rparr>"

definition copied_world :: world where
  "copied_world =
     \<lparr>nested_copy = stops_at_once, files = example_fs
         @ [([''d'', ''a''], Directory), ([''d'', ''a'', ''SKILL.md''], File ''A''),
            ([''d'', ''b''], Directory), ([''d'', ''b'', ''SKILL.md''], File ''B'')],
      stdin = (\<lambda>n. None),
      console = [Stdout SourcesHeader, Stdout (SourceLine [''s''] False),
                 Stdout (DestinationLine [''d'']), Stdout (SettingsLine Copy Skip False),
                 Stdout (SkillsFound 2), Stdout (ActionLine DoCopy ''a'' [''d'', ''a'']),
                 Stdout (ActionLine DoCopy ''b'' [''d'', ''b'']), Stdout (Summary 2 0 0 None)]\<rparr>"

section \<open>Notions used in the statements\<close>

text \<open>The thirteen answers that \<^verbatim>\<open>resolve_conflict\<close> recognises (lines 117 to 121).\<close>

definition answers :: "string list" where
  "answers = [''o'', ''overwrite'', ''y'', ''yes''] @ [''s'', ''skip'', [], ''n'', ''no'']
             @ [''a'', ''abort'', ''q'', ''quit'']"

text \<open>The state after \<open>k\<close> rounds of prompt, unrecognised answer and usage hint.\<close>

definition reprompted :: "path \<Rightarrow> nat \<Rightarrow> world \<Rightarrow> world" where
  "reprompted dest_dir k w =
     w\<lparr>stdin := (\<lambda>n. stdin w (n + k)),
       console := console w
         @ concat (replicate k [Prompt (name dest_dir) dest_dir, Stdout PleaseChoose])\<rparr>"

text \<open>The source roots that exist and are directories, as line 187 to 195 keep them.\<close>

definition valid_roots :: "path \<Rightarrow> config \<Rightarrow> filesystem \<Rightarrow> (path \<times> bool) list" where
  "valid_roots home args fs = filter (\<lambda>pr. is_dir fs (fst pr)) (build_sources home args)"

text \<open>The actions of the lines \<^verbatim>\<open>ACTION: name -> destination\<close> among some events, in order.\<close>

definition recorded_actions :: "event list \<Rightarrow> action list" where
  "recorded_actions evs =
     concat (map (\<lambda>ev. case ev of Stdout (ActionLine act n p) \<Rightarrow> [act] | _ \<Rightarrow> []) evs)"

section \<open>Paths and lookups\<close>

lemma sibling_less: "root @ [a] < root @ [b] \<longleftrightarrow> a < (b::string)"
  by (induction root) auto

lemma child_decompose: "d \<noteq> [] \<Longrightarrow> parent d = root \<Longrightarrow> d = root @ [name d]"
  by (auto simp: parent_def name_def)

lemma is_dir_listed: "is_dir fs p \<Longrightarrow> p \<in> fst ` set fs"
  by (auto simp: is_dir_def lookup_def dest: map_of_SomeD intro: rev_image_eqI)

lemma joinpath_marker [simp]: "joinpath p ''SKILL.md'' = p @ [''SKILL.md'']"
  by (simp add: joinpath_def)

section \<open>The direct scan\<close>

lemma siblings_sorted_by_name:
  assumes "sorted_wrt (<) ds" and "\<forall>d\<in>set ds. d \<noteq> [] \<and> parent d = root"
  shows "sorted_wrt (<) (map name ds)"
proof -
  have "sorted_wrt (\<lambda>x y. name x < name y) ds"
  proof (rule sorted_wrt_mono_rel[OF _ assms(1)])
    fix x y assume "x \<in> set ds" "y \<in> set ds" "x < y"
    with assms(2) have "x = root @ [name x]" "y = root @ [name y]"
      by (auto intro: child_decompose)
    with \<open>x < y\<close> show "name x < name y"
      using sibling_less by metis
  qed
  then show ?thesis by (simp add: sorted_wrt_map)
qed

lemma list_skill_dirs_direct_eq:
  assumes "is_dir fs root"
  shows "list_skill_dirs fs root False =
     Inr (filter (\<lambda>entry. \<not> startswith_dot (name entry) \<and> is_dir fs entry \<and>
                           is_file fs (entry @ [''SKILL.md'']))
            (sort (remdups (filter (\<lambda>p. p \<noteq> [] \<and> parent p = root) (map fst fs)))))"
  using assms by (simp add: list_skill_dirs_def iterdir_def is_dir_def)

text \<open>
  Claim C4. The direct scan of a directory \<open>root\<close> returns exactly the direct
  children of \<open>root\<close> whose name does not start with a dot, that are directories and
  that hold a regular file \<^verbatim>\<open>SKILL.md\<close>; the names of the result are strictly
  increasing, so it is in alphabetical order of names. On a root that is not a
  directory the scan raises, as \<^verbatim>\<open>iterdir\<close> does.
\<close>

theorem list_skill_dirs_direct:
  "if is_dir fs root
   then \<exists>ds. list_skill_dirs fs root False = Inr ds \<and>
          (\<forall>d. d \<in> set ds \<longleftrightarrow>
             d \<noteq> [] \<and> parent d = root \<and> \<not> startswith_dot (name d) \<and>
             is_dir fs d \<and> is_file fs (d @ [''SKILL.md''])) \<and>
          sorted_wrt (<) (map name ds)
   else \<exists>e. list_skill_dirs fs root False = Inl e"
proof (cases "is_dir fs root")
  case True
  let ?ds = "filter (\<lambda>entry. \<not> startswith_dot (name entry) \<and> is_dir fs entry \<and>
                              is_file fs (entry @ [''SKILL.md'']))
               (sort (remdups (filter (\<lambda>p. p \<noteq> [] \<and> parent p = root) (map fst fs))))"
  have eq: "list_skill_dirs fs root False = Inr ?ds"
    by (rule list_skill_dirs_direct_eq[OF True])
  have mem: "d \<in> set ?ds \<longleftrightarrow> d \<noteq> [] \<and> parent d = root \<and> \<not> startswith_dot (name d) \<and>
             is_dir fs d \<and> is_file fs (d @ [''SKILL.md''])" for d
    using is_dir_listed[of fs d] by auto
  have "sorted_wrt (<) ?ds"
    by (simp add: strict_sorted_iff sorted_filter[where f = "\<lambda>x. x", simplified])
  then have "sorted_wrt (<) (map name ?ds)"
    by (rule siblings_sorted_by_name[where root = root]) auto
  with eq mem True show ?thesis by auto
next
  case False
  then show ?thesis
    by (auto simp: list_skill_dirs_def iterdir_def is_dir_def split: option.splits entry.splits)
qed

theorem list_skill_dirs_direct_witness:
  "is_dir example_fs [''s''] \<and>
   (\<exists>ds. list_skill_dirs example_fs [''s''] False = Inr ds \<and>
      [''s'', ''a''] \<in> set ds \<and> [''s'', ''.h''] \<notin> set ds \<and> [''s'', ''x''] \<notin> set ds \<and>
      sorted_wrt (<) (map name ds))"
proof -
  have d: "is_dir example_fs [''s'']"
    by (simp add: is_dir_def lookup_def example_fs_def)
  have a: "[''s'', ''a''] \<noteq> [] \<and> parent [''s'', ''a''] = [''s''] \<and>
           \<not> startswith_dot (name [''s'', ''a'']) \<and> is_dir example_fs [''s'', ''a''] \<and>
           is_file example_fs ([''s'', ''a''] @ [''SKILL.md''])"
    by (simp add: parent_def name_def startswith_dot_def is_dir_def is_file_def lookup_def
          example_fs_def)
  have h: "startswith_dot (name [''s'', ''.h''])"
    by (simp add: name_def startswith_dot_def)
  have x: "\<not> is_file example_fs ([''s'', ''x''] @ [''SKILL.md''])"
    by (simp add: is_file_def lookup_def example_fs_def)
  from list_skill_dirs_direct[of example_fs "[''s'']"] d a h x show ?thesis
    by (auto simp del: list.set)
qed

section \<open>Dry runs\<close>

lemma files_emit [simp]: "files (emit ev w) = files w"
  and nested_copy_emit [simp]: "nested_copy (emit ev w) = nested_copy w"
  and stdin_emit [simp]: "stdin (emit ev w) = stdin w"
  and console_emit [simp]: "console (emit ev w) = console w @ [ev]"
  by (simp_all add: emit_def)

lemma files_consume_line [simp]: "files (consume_line w) = files w"
  and nested_copy_consume_line [simp]: "nested_copy (consume_line w) = nested_copy w"
  and console_consume_line [simp]: "console (consume_line w) = console w"
  by (simp_all add: consume_line_def)

lemma prompt_loop_frame:
  assumes "prompt_loop d w = Some y"
  shows "files (snd y) = files w"
proof (rule prompt_loop.raw_induct[where P = "\<lambda>d w y. files (snd y) = files w", OF _ assms])
  fix f d w and y :: "policy \<times> world"
  assume IH: "\<And>d w y. f d w = Some y \<Longrightarrow> files (snd y) = files w"
    and step: "(let w1 = emit (Prompt (name d) d) w in
      case stdin w1 0 of
        None \<Rightarrow> Some (Abort, emit (Stderr NoInteractiveInput) w1)
      | Some line \<Rightarrow>
          (let w2 = consume_line w1; response = lower (strip line) in
           if response \<in> set [''o'', ''overwrite'', ''y'', ''yes''] then Some (Overwrite, w2)
           else if response \<in> set [''s'', ''skip'', [], ''n'', ''no''] then Some (Skip, w2)
           else if response \<in> set [''a'', ''abort'', ''q'', ''quit''] then Some (Abort, w2)
           else f d (emit (Stdout PleaseChoose) w2))) = Some y"
  from step show "files (snd y) = files w"
    by (auto simp: Let_def split: option.splits if_splits dest!: IH)
qed

lemma prompt_loop_files: "prompt_loop d w = Some (dec, w') \<Longrightarrow> files w' = files w"
  using prompt_loop_frame by fastforce

lemma resolve_conflict_files:
  "resolve_conflict d pol dry w = Some (dec, w') \<Longrightarrow> files w' = files w"
  by (auto simp: resolve_conflict_def split: if_splits dest: prompt_loop_files)

lemma prompt_loop_environment:
  assumes "prompt_loop d w = Some y"
  shows "nested_copy (snd y) = nested_copy w"
proof (rule prompt_loop.raw_induct[where P = "\<lambda>d w y. nested_copy (snd y) = nested_copy w",
      OF _ assms])
  fix f d w and y :: "policy \<times> world"
  assume IH: "\<And>d w y. f d w = Some y \<Longrightarrow> nested_copy (snd y) = nested_copy w"
    and step: "(let w1 = emit (Prompt (name d) d) w in
      case stdin w1 0 of
        None \<Rightarrow> Some (Abort, emit (Stderr NoInteractiveInput) w1)
      | Some line \<Rightarrow>
          (let w2 = consume_line w1; response = lower (strip line) in
           if response \<in> set [''o'', ''overwrite'', ''y'', ''yes''] then Some (Overwrite, w2)
           else if response \<in> set [''s'', ''skip'', [], ''n'', ''no''] then Some (Skip, w2)
           else if response \<in> set [''a'', ''abort'', ''q'', ''quit''] then Some (Abort, w2)
           else f d (emit (Stdout PleaseChoose) w2))) = Some y"
  from step show "nested_copy (snd y) = nested_copy w"
    by (auto simp: Let_def split: option.splits if_splits dest!: IH)
qed

lemma resolve_conflict_environment:
  "resolve_conflict d pol dry w = Some (dec, w') \<Longrightarrow> nested_copy w' = nested_copy w"
  using prompt_loop_environment[of d w "(dec, w')"]
  by (auto simp: resolve_conflict_def split: if_splits)

lemma resolve_conflict_dry:
  "\<exists>dec w'. resolve_conflict d pol True w = Some (dec, w') \<and> dec \<noteq> Ask \<and>
      files w' = files w \<and> stdin w' = stdin w"
  by (cases pol) (simp_all add: resolve_conflict_def)

lemma copy_skill_dry:
  "\<exists>r w'. copy_skill s dest_root pol True w = Some (r, w') \<and> files w' = files w \<and> stdin w' = stdin w"
proof -
  obtain dec w1 where r: "resolve_conflict (joinpath dest_root (name s)) pol True w = Some (dec, w1)"
    "files w1 = files w" "stdin w1 = stdin w"
    using resolve_conflict_dry by blast
  then show ?thesis
    by (simp add: copy_skill_def copy_skill_apply_def Let_def)
qed

lemma copy_loop_dry:
  "\<exists>r w'. copy_loop skills dest_root pol True counts w = Some (r, w') \<and>
     files w' = files w \<and> stdin w' = stdin w"
proof (induction skills arbitrary: counts w)
  case Nil
  then show ?case by simp
next
  case (Cons s skills)
  obtain r w1 where s: "copy_skill s dest_root pol True w = Some (r, w1)"
    "files w1 = files w" "stdin w1 = stdin w"
    using copy_skill_dry by blast
  show ?case
  proof (cases r)
    case (Inl e)
    with s show ?thesis by simp
  next
    case (Inr act)
    let ?w = "emit (Stdout (ActionLine act (name s) (joinpath dest_root (name s)))) w1"
    from Cons.IH[of "counts(act := counts act + 1)" ?w] s Inr show ?thesis
      by (auto simp del: fun_upd_apply)
  qed
qed

lemma prune_loop_dry:
  "\<exists>n w'. prune_loop names True ds pruned w = (Inr n, w') \<and> files w' = files w \<and> stdin w' = stdin w"
proof (induction ds arbitrary: pruned w)
  case Nil
  then show ?case by simp
next
  case (Cons d ds)
  from Cons.IH[of pruned w]
       Cons.IH[of "pruned + 1" "emit (Stdout (PruneLine (name d) d)) w"]
  show ?case by auto
qed

lemma prune_dest_dry:
  "\<exists>r w'. prune_dest names dest_root True w = (r, w') \<and> files w' = files w \<and> stdin w' = stdin w"
proof (cases "list_skill_dirs (files w) dest_root False")
  case (Inl e)
  then show ?thesis by (simp add: prune_dest_def)
next
  case (Inr ds)
  with prune_loop_dry[of names ds 0 w] show ?thesis
    by (auto simp: prune_dest_def)
qed

lemma validate_sources_frame:
  "files (snd (validate_sources srcs w)) = files w \<and> stdin (snd (validate_sources srcs w)) = stdin w"
  by (induction srcs w rule: validate_sources.induct) (auto split: prod.splits)

lemma ensure_dest_dry:
  "\<exists>w'. ensure_dest d True w = (Inr (), w') \<and> files w' = files w \<and> stdin w' = stdin w"
  by (simp add: ensure_dest_def)

lemma files_print_settings [simp]: "files (print_settings args v n w) = files w"
  and stdin_print_settings [simp]: "stdin (print_settings args v n w) = stdin w"
  by (simp_all add: print_settings_def)

lemma prune_step_dry:
  "dry_run args \<Longrightarrow>
   \<exists>r w'. prune_step args skills w = (r, w') \<and> files w' = files w \<and> stdin w' = stdin w"
  using prune_dest_dry[of "name ` set skills" "dest args" w]
  by (auto simp: prune_step_def)

lemma sync_skills_dry:
  assumes "dry_run args"
  shows "\<exists>r w'. sync_skills args skills w = Some (r, w') \<and> files w' = files w \<and> stdin w' = stdin w"
proof -
  obtain r w1 where c: "copy_loop skills (dest args) (conflict args) True (\<lambda>a. 0) w = Some (r, w1)"
    "files w1 = files w" "stdin w1 = stdin w"
    using copy_loop_dry by blast
  show ?thesis
  proof (cases r)
    case (Inl e)
    with c assms show ?thesis by (simp add: sync_skills_def)
  next
    case (Inr counts)
    obtain r2 w2 where p: "prune_step args skills w1 = (r2, w2)" "files w2 = files w1" "stdin w2 = stdin w1"
      using prune_step_dry[OF assms] by blast
    with c Inr assms show ?thesis
      by (cases r2) (simp_all add: sync_skills_def)
  qed
qed

lemma startup_dry:
  assumes "dry_run args"
  shows "case startup home args w of
           Inl (r, w') \<Rightarrow> files w' = files w \<and> stdin w' = stdin w
         | Inr (skills, w') \<Rightarrow> files w' = files w \<and> stdin w' = stdin w"
  using assms validate_sources_frame[of "build_sources home args" w]
  by (auto simp: startup_def ensure_dest_def split: prod.splits sum.splits)

lemma main_dry:
  assumes "dry_run args"
  shows "\<exists>r w'. main home args w = Some (r, w') \<and> files w' = files w \<and> stdin w' = stdin w"
proof (cases "startup home args w")
  case (Inl ended)
  with startup_dry[OF assms, where home = home and w = w] show ?thesis
    by (cases ended) (simp add: main_def)
next
  case (Inr go)
  obtain skills w0 where go: "go = (skills, w0)" by (cases go)
  with Inr startup_dry[OF assms, where home = home and w = w] have "files w0 = files w" "stdin w0 = stdin w"
    by simp_all
  with sync_skills_dry[OF assms, of skills w0] Inr go show ?thesis
    by (auto simp: main_def)
qed

text \<open>
  Claim C1. In a dry run nothing changes the filesystem: the copy step, the pruning
  and the handling of a missing destination all return with the files as they were,
  and so does every run of \<^verbatim>\<open>main\<close> with \<^verbatim>\<open>--dry-run\<close>, which always ends and reads
  no input. Only the console grows.
\<close>

theorem preview_purity:
  "(\<exists>r w'. copy_skill src_dir dest_root pol True w = Some (r, w') \<and>
             files w' = files w \<and> stdin w' = stdin w) \<and>
   (\<exists>r w'. prune_dest names dest_root True w = (r, w') \<and>
             files w' = files w \<and> stdin w' = stdin w) \<and>
   (\<exists>w'. ensure_dest dest_root True w = (Inr (), w') \<and>
           files w' = files w \<and> stdin w' = stdin w) \<and>
   (dry_run args \<longrightarrow>
      (\<exists>r w'. main home args w = Some (r, w') \<and> files w' = files w \<and> stdin w' = stdin w))"
  using copy_skill_dry[of src_dir dest_root pol w] prune_dest_dry[of names dest_root w]
    ensure_dest_dry[of dest_root w] main_dry[of args home w]
  by blast

theorem preview_purity_witness:
  "dry_run (example_args\<lparr>dry_run := True\<rparr>) \<and>
   (\<exists>r w'. main [''h''] (example_args\<lparr>dry_run := True\<rparr>) example_world = Some (r, w') \<and>
      files w' = example_fs)"
proof -
  have d: "dry_run (example_args\<lparr>dry_run := True\<rparr>)"
    by simp
  from d preview_purity[where args = "example_args\<lparr>dry_run := True\<rparr>" and home = "[''h'']"
      and w = example_world and src_dir = "[''s'', ''a'']" and dest_root = "[''d'']"
      and pol = Ask and names = "{}"]
  have "\<exists>r w'. main [''h''] (example_args\<lparr>dry_run := True\<rparr>) example_world = Some (r, w') \<and>
          files w' = files example_world \<and> stdin w' = stdin example_world"
    by blast
  with d show ?thesis
    by (auto simp: example_world_def)
qed

section \<open>The environment\<close>

text \<open>No operation of the program changes the field \<^verbatim>\<open>nested_copy\<close>: a run ends
  in the environment it started in.\<close>

lemma copy_skill_apply_environment:
  "copy_skill_apply s d act dry w = (r, w') \<Longrightarrow> nested_copy w' = nested_copy w"
  by (auto simp: copy_skill_apply_def split: if_splits sum.splits prod.splits)

lemma copy_skill_environment:
  assumes "copy_skill s dest_root pol dry w = Some (r, w')"
  shows "nested_copy w' = nested_copy w"
proof (cases "path_exists (files w) (joinpath dest_root (name s))")
  case False
  with assms show ?thesis
    by (auto simp: copy_skill_def Let_def dest: copy_skill_apply_environment)
next
  case True
  with assms obtain dec w1 where
    r: "resolve_conflict (joinpath dest_root (name s)) pol dry w = Some (dec, w1)"
    by (auto simp: copy_skill_def Let_def split: option.splits)
  from resolve_conflict_environment[OF r] assms True r show ?thesis
    by (auto simp: copy_skill_def Let_def split: if_splits sum.splits
          dest: copy_skill_apply_environment)
qed

lemma copy_loop_environment:
  "copy_loop skills dest_root pol dry counts w = Some (r, w') \<Longrightarrow> nested_copy w' = nested_copy w"
proof (induction skills arbitrary: counts w)
  case Nil
  then show ?case by simp
next
  case (Cons s skills)
  from Cons.prems obtain r1 w1 where s: "copy_skill s dest_root pol dry w = Some (r1, w1)"
    by (auto split: option.splits)
  note e = copy_skill_environment[OF s]
  show ?case
  proof (cases r1)
    case (Inl x)
    with Cons.prems s e show ?thesis by simp
  next
    case (Inr act)
    with Cons.prems s
    have "copy_loop skills dest_root pol dry (counts(act := counts act + 1))
            (emit (Stdout (ActionLine act (name s) (joinpath dest_root (name s)))) w1) = Some (r, w')"
      by simp
    from Cons.IH[OF this] e show ?thesis by simp
  qed
qed

lemma prune_loop_environment:
  "prune_loop names dry ds n w = (r, w') \<Longrightarrow> nested_copy w' = nested_copy w"
proof (induction ds arbitrary: n w)
  case Nil
  then show ?case by simp
next
  case (Cons d ds)
  then show ?case
    by (auto split: if_splits sum.splits dest!: Cons.IH)
qed

lemma prune_step_environment:
  "prune_step args skills w = (r, w') \<Longrightarrow> nested_copy w' = nested_copy w"
  by (auto simp: prune_step_def prune_dest_def split: if_splits sum.splits
        dest: prune_loop_environment)

lemma validate_sources_environment:
  "nested_copy (snd (validate_sources srcs w)) = nested_copy w"
  by (induction srcs w rule: validate_sources.induct) (auto split: prod.splits)

lemma startup_environment:
  "case startup home args w of
     Inl (r, w') \<Rightarrow> nested_copy w' = nested_copy w
   | Inr (skills, w') \<Rightarrow> nested_copy w' = nested_copy w"
  using validate_sources_environment[of "build_sources home args" w]
  by (auto simp: startup_def ensure_dest_def print_settings_def
        split: prod.splits sum.splits if_splits)

lemma sync_skills_environment:
  assumes "sync_skills args skills w = Some (r, w')"
  shows "nested_copy w' = nested_copy w"
proof -
  from assms obtain r1 w1 where
    c: "copy_loop skills (dest args) (conflict args) (dry_run args) (\<lambda>a. 0) w = Some (r1, w1)"
    by (auto simp: sync_skills_def split: option.splits)
  note e = copy_loop_environment[OF c]
  show ?thesis
  proof (cases r1)
    case (Inl x)
    with assms c e show ?thesis
      by (auto simp: sync_skills_def split: if_splits)
  next
    case (Inr counts)
    obtain r2 w2 where p: "prune_step args skills w1 = (r2, w2)"
      by (cases "prune_step args skills w1")
    from prune_step_environment[OF p] assms c e p Inr show ?thesis
      by (cases r2) (auto simp: sync_skills_def)
  qed
qed

lemma main_environment:
  assumes "main home args w = Some (r, w')"
  shows "nested_copy w' = nested_copy w"
proof (cases "startup home args w")
  case (Inl ended)
  with assms startup_environment[where home = home and args = args and w = w] show ?thesis
    by (auto simp: main_def)
next
  case (Inr go)
  obtain skills w0 where go: "go = (skills, w0)" by (cases go)
  with Inr startup_environment[where home = home and args = args and w = w] have "nested_copy w0 = nested_copy w"
    by simp
  moreover from assms Inr go have "sync_skills args skills w0 = Some (r, w')"
    by (simp add: main_def)
  ultimately show ?thesis
    using sync_skills_environment by simp
qed

section \<open>The prompt\<close>

lemma reprompted_0 [simp]: "reprompted d 0 w = w"
  by (simp add: reprompted_def)

lemma reprompted_Suc:
  "reprompted d (Suc k) w = reprompted d k (emit (Stdout PleaseChoose) (consume_line (emit (Prompt (name d) d) w)))"
  by (simp add: reprompted_def emit_def consume_line_def replicate_app_Cons_same)

lemma stdin_reprompted [simp]: "stdin (reprompted d k w) n = stdin w (n + k)"
  by (simp add: reprompted_def)

lemma prompt_loop_unrecognised:
  assumes "stdin w 0 = Some l" "lower (strip l) \<notin> set answers"
  shows "prompt_loop d w = prompt_loop d (emit (Stdout PleaseChoose) (consume_line (emit (Prompt (name d) d) w)))"
  using assms by (subst prompt_loop.simps) (simp add: answers_def Let_def)

lemma prompt_loop_skip_unrecognised:
  "\<forall>i<k. \<exists>l. stdin w i = Some l \<and> lower (strip l) \<notin> set answers \<Longrightarrow>
   prompt_loop d w = prompt_loop d (reprompted d k w)"
proof (induction k arbitrary: w)
  case 0
  then show ?case by simp
next
  case (Suc k)
  from Suc.prems obtain l where l: "stdin w 0 = Some l" "lower (strip l) \<notin> set answers"
    by auto
  let ?w = "emit (Stdout PleaseChoose) (consume_line (emit (Prompt (name d) d) w))"
  have "\<forall>i<k. \<exists>l. stdin ?w i = Some l \<and> lower (strip l) \<notin> set answers"
    using Suc.prems by (auto simp: consume_line_def)
  then have "prompt_loop d ?w = prompt_loop d (reprompted d k ?w)"
    by (rule Suc.IH)
  then show ?case
    using prompt_loop_unrecognised[OF l, of d] by (simp add: reprompted_Suc)
qed

lemma prompt_loop_step:
  "prompt_loop d w =
     (case stdin w 0 of
        None \<Rightarrow> Some (Abort, emit (Stderr NoInteractiveInput) (emit (Prompt (name d) d) w))
      | Some l \<Rightarrow>
          if lower (strip l) \<in> set [''o'', ''overwrite'', ''y'', ''yes'']
          then Some (Overwrite, consume_line (emit (Prompt (name d) d) w))
          else if lower (strip l) \<in> set [''s'', ''skip'', [], ''n'', ''no'']
          then Some (Skip, consume_line (emit (Prompt (name d) d) w))
          else if lower (strip l) \<in> set [''a'', ''abort'', ''q'', ''quit'']
          then Some (Abort, consume_line (emit (Prompt (name d) d) w))
          else prompt_loop d (reprompted d (Suc 0) w))"
  by (subst prompt_loop.simps) (simp add: Let_def reprompted_Suc split: option.splits)

lemma concat_replicate_comm: "concat (replicate k xs) @ xs = xs @ concat (replicate k xs)"
  by (induction k) auto

lemma reprompted_add: "reprompted d (Suc 0) (reprompted d k w) = reprompted d (Suc k) w"
  by (simp add: reprompted_def concat_replicate_comm)

text \<open>
  The loop returns only if some line is recognised or the input ends; on an endless
  input of unrecognised lines it prompts forever.
\<close>

lemma prompt_loop_returns_at_answer:
  assumes "prompt_loop d w = Some y"
  shows "\<exists>k. case stdin w k of None \<Rightarrow> True | Some l \<Rightarrow> lower (strip l) \<in> set answers"
proof (rule prompt_loop.raw_induct[where
      P = "\<lambda>d w y. \<exists>k. case stdin w k of None \<Rightarrow> True | Some l \<Rightarrow> lower (strip l) \<in> set answers",
      OF _ assms])
  fix f d w and y :: "policy \<times> world"
  assume IH: "\<And>d w y. f d w = Some y \<Longrightarrow>
                \<exists>k. case stdin w k of None \<Rightarrow> True | Some l \<Rightarrow> lower (strip l) \<in> set answers"
    and step: "(let w1 = emit (Prompt (name d) d) w in
      case stdin w1 0 of
        None \<Rightarrow> Some (Abort, emit (Stderr NoInteractiveInput) w1)
      | Some line \<Rightarrow>
          (let w2 = consume_line w1; response = lower (strip line) in
           if response \<in> set [''o'', ''overwrite'', ''y'', ''yes''] then Some (Overwrite, w2)
           else if response \<in> set [''s'', ''skip'', [], ''n'', ''no''] then Some (Skip, w2)
           else if response \<in> set [''a'', ''abort'', ''q'', ''quit''] then Some (Abort, w2)
           else f d (emit (Stdout PleaseChoose) w2))) = Some y"
  show "\<exists>k. case stdin w k of None \<Rightarrow> True | Some l \<Rightarrow> lower (strip l) \<in> set answers"
  proof (cases "stdin w 0")
    case None
    then show ?thesis by (intro exI[of _ 0]) simp
  next
    case (Some l)
    show ?thesis
    proof (cases "lower (strip l) \<in> set answers")
      case True
      with Some show ?thesis by (intro exI[of _ 0]) simp
    next
      case False
      with Some step
      have "f d (emit (Stdout PleaseChoose) (consume_line (emit (Prompt (name d) d) w))) = Some y"
        by (simp add: Let_def answers_def)
      from IH[OF this] obtain k where
        "case stdin w (Suc k) of None \<Rightarrow> True | Some l \<Rightarrow> lower (strip l) \<in> set answers"
        by (auto simp: consume_line_def)
      then show ?thesis by blast
    qed
  qed
qed

lemma prompt_loop_never_returns:
  "\<forall>k. \<exists>l. stdin w k = Some l \<and> lower (strip l) \<notin> set answers \<Longrightarrow> prompt_loop d w = None"
proof (rule ccontr)
  assume all: "\<forall>k. \<exists>l. stdin w k = Some l \<and> lower (strip l) \<notin> set answers"
    and "prompt_loop d w \<noteq> None"
  then obtain y where "prompt_loop d w = Some y" by auto
  from prompt_loop_returns_at_answer[OF this] obtain k where
    k: "case stdin w k of None \<Rightarrow> True | Some l \<Rightarrow> lower (strip l) \<in> set answers" ..
  from all obtain l where "stdin w k = Some l" "lower (strip l) \<notin> set answers"
    by blast
  with k show False by simp
qed

text \<open>
  Claim C8, as amended. Under the policy \<^verbatim>\<open>ask\<close>, outside a dry run, the answer is
  stripped of surrounding white space and put in lower case before it is compared.
  After \<open>k\<close> answers that are not recognised, each followed by the usage hint and a
  new prompt, the resolver returns at the next line: \<^verbatim>\<open>abort\<close> with the guidance on
  standard error when the input has ended, \<^verbatim>\<open>overwrite\<close>, \<^verbatim>\<open>skip\<close> or \<^verbatim>\<open>abort\<close>
  when the normalised answer is one of the words of that group, and one more round
  otherwise.
\<close>

theorem resolve_conflict_ask:
  assumes "\<forall>i<k. \<exists>l. stdin w i = Some l \<and> lower (strip l) \<notin> set answers"
  shows "resolve_conflict d Ask False w =
     (case stdin w k of
        None \<Rightarrow>
          Some (Abort, emit (Stderr NoInteractiveInput) (emit (Prompt (name d) d) (reprompted d k w)))
      | Some l \<Rightarrow>
          if lower (strip l) \<in> set [''o'', ''overwrite'', ''y'', ''yes'']
          then Some (Overwrite, consume_line (emit (Prompt (name d) d) (reprompted d k w)))
          else if lower (strip l) \<in> set [''s'', ''skip'', [], ''n'', ''no'']
          then Some (Skip, consume_line (emit (Prompt (name d) d) (reprompted d k w)))
          else if lower (strip l) \<in> set [''a'', ''abort'', ''q'', ''quit'']
          then Some (Abort, consume_line (emit (Prompt (name d) d) (reprompted d k w)))
          else resolve_conflict d Ask False (reprompted d (Suc k) w))"
proof -
  have a: "resolve_conflict d Ask False w = prompt_loop d (reprompted d k w)"
    using prompt_loop_skip_unrecognised[OF assms] by (simp add: resolve_conflict_def)
  have b: "resolve_conflict d Ask False (reprompted d (Suc k) w)
             = prompt_loop d (reprompted d (Suc 0) (reprompted d k w))"
    by (simp add: resolve_conflict_def reprompted_add)
  show ?thesis
    unfolding a b by (subst prompt_loop_step) simp
qed

lemma normalise_maybe: "lower (strip ''maybe'') = ''maybe''"
  by code_simp

lemma normalise_yes: "lower (strip '' YES '') = ''yes''"
  by code_simp

lemma normalise_padded: "lower (strip '' o'') = ''o''"
  by code_simp

theorem resolve_conflict_ask_witness:
  "typed_answers 0 = Some ''maybe'' \<and> lower (strip ''maybe'') \<notin> set answers \<and>
   resolve_conflict [''d'', ''a''] Ask False \<lparr>nested_copy = stops_at_once, files = [], stdin = typed_answers, console = []\<rparr> =
     Some (Overwrite,
           \<lparr>nested_copy = stops_at_once, files = [], stdin = (\<lambda>n. typed_answers (n + 2)),
            console = [Prompt ''a'' [''d'', ''a''], Stdout PleaseChoose, Prompt ''a'' [''d'', ''a'']]\<rparr>)"
proof -
  let ?w = "\<lparr>nested_copy = stops_at_once, files = [], stdin = typed_answers, console = []\<rparr>"
  have h: "\<forall>i<1. \<exists>l. stdin ?w i = Some l \<and> lower (strip l) \<notin> set answers"
    by (simp add: typed_answers_def normalise_maybe answers_def)
  from resolve_conflict_ask[OF h, of "[''d'', ''a'']"] h show ?thesis
    by (simp add: typed_answers_def normalise_yes normalise_maybe answers_def reprompted_def
          emit_def consume_line_def name_def)
qed

text \<open>
  Claim C8, as stated, fails: the answer \<^verbatim>\<open>" o"\<close> is none of the listed words, in any
  case, and yet it is taken as \<^verbatim>\<open>overwrite\<close> at once, with no usage hint and no second
  prompt.
\<close>

theorem padded_answer_accepted:
  "lower '' o'' \<notin> set answers \<and>
   resolve_conflict [''d'', ''a''] Ask False \<lparr>nested_copy = stops_at_once, files = [], stdin = padded_answer, console = []\<rparr> =
     Some (Overwrite,
           \<lparr>nested_copy = stops_at_once, files = [], stdin = (\<lambda>n. padded_answer (Suc n)), console = [Prompt ''a'' [''d'', ''a'']]\<rparr>)"
proof -
  have "lower '' o'' = '' o''"
    by code_simp
  then have "lower '' o'' \<notin> set answers"
    by (simp add: answers_def)
  moreover have "resolve_conflict [''d'', ''a''] Ask False \<lparr>nested_copy = stops_at_once, files = [], stdin = padded_answer, console = []\<rparr> =
     Some (Overwrite,
           \<lparr>nested_copy = stops_at_once, files = [], stdin = (\<lambda>n. padded_answer (Suc n)), console = [Prompt ''a'' [''d'', ''a'']]\<rparr>)"
    by (simp add: resolve_conflict_def prompt_loop_step padded_answer_def normalise_padded
          emit_def consume_line_def name_def)
  ultimately show ?thesis by simp
qed

section \<open>The recursive scan\<close>

lemma recursive_scan_mem:
  "list_skill_dirs fs root True = Inr ds \<Longrightarrow>
   d \<in> set ds \<longleftrightarrow>
     is_dir fs root \<and> prefix root d \<and> path_exists fs (d @ [''SKILL.md'']) \<and>
     \<not> list_ex startswith_dot (drop (length root) d)"
proof -
  assume "list_skill_dirs fs root True = Inr ds"
  then have ds: "ds = filter (\<lambda>skill_dir. \<not> list_ex startswith_dot (drop (length root) skill_dir))
                       (map parent (sort (rglob fs root ''SKILL.md'')))"
    by (simp add: list_skill_dirs_def)
  have listed: "f \<in> fst ` set fs \<longleftrightarrow> path_exists fs f" for f
    by (simp add: path_exists_def lookup_def map_of_eq_None_iff)
  have marker: "f \<in> set (rglob fs root ''SKILL.md'') \<longleftrightarrow>
                  is_dir fs root \<and> path_exists fs f \<and> prefix root (parent f) \<and>
                  f = parent f @ [''SKILL.md'']" for f
  proof (cases f rule: rev_cases)
    case Nil
    then show ?thesis by (simp add: rglob_def)
  next
    case (snoc g n)
    then show ?thesis
      using listed[of f] by (auto simp: rglob_def name_def parent_def strict_prefix_def)
  qed
  have "d \<in> parent ` set (rglob fs root ''SKILL.md'') \<longleftrightarrow>
          is_dir fs root \<and> prefix root d \<and> path_exists fs (d @ [''SKILL.md''])"
  proof
    assume "d \<in> parent ` set (rglob fs root ''SKILL.md'')"
    then obtain f where "f \<in> set (rglob fs root ''SKILL.md'')" "d = parent f" by auto
    then show "is_dir fs root \<and> prefix root d \<and> path_exists fs (d @ [''SKILL.md''])"
      using marker[of f] by auto
  next
    assume r: "is_dir fs root \<and> prefix root d \<and> path_exists fs (d @ [''SKILL.md''])"
    then have "d @ [''SKILL.md''] \<in> set (rglob fs root ''SKILL.md'')"
      using marker[of "d @ [''SKILL.md'']"] by (simp add: parent_def)
    then show "d \<in> parent ` set (rglob fs root ''SKILL.md'')"
      by (force simp: parent_def)
  qed
  with ds show ?thesis by auto
qed

text \<open>
  Claim C5 at a tree in which \<^verbatim>\<open>/r/x\<close> holds a directory named \<^verbatim>\<open>SKILL.md\<close> and no
  marker file: the recursive scan returns \<^verbatim>\<open>/r/x\<close>, the direct scan of the same root
  does not.
\<close>

theorem recursive_scan_accepts_marker_directory:
  "wf_fs marker_dir_fs \<and>
   \<not> is_file marker_dir_fs [''r'', ''x'', ''SKILL.md''] \<and>
   list_skill_dirs marker_dir_fs [''r''] True = Inr [[''r'', ''x'']] \<and>
   list_skill_dirs marker_dir_fs [''r''] False = Inr []"
  by code_simp

section \<open>Running the definitions\<close>

lemmas eval_defs = lookup_def path_exists_def is_dir_def is_file_def name_def parent_def joinpath_def
  startswith_dot_def iterdir_def rglob_def list_skill_dirs_def emit_def consume_line_def
  rmtree_def makedirs_def copytree_def resolve_conflict_def copy_skill_apply_def copy_skill_def
  prune_dest_def build_sources_def ensure_dest_def print_settings_def prune_step_def
  sync_skills_def startup_def main_def OFFICIAL_PLUGIN_ROOTS_def valid_roots_def

section \<open>The loop over the skills\<close>

lemma copy_loop_append:
  "copy_loop (pre @ post) dest_root pol dry counts w =
     (case copy_loop pre dest_root pol dry counts w of
        None \<Rightarrow> None
      | Some (Inl e, w1) \<Rightarrow> Some (Inl e, w1)
      | Some (Inr counts1, w1) \<Rightarrow> copy_loop post dest_root pol dry counts1 w1)"
  by (induction pre arbitrary: counts w) (auto split: option.splits sum.splits prod.splits)

lemma copy_skill_abort:
  assumes "path_exists (files w) (joinpath dest_root (name s))"
    and "resolve_conflict (joinpath dest_root (name s)) pol dry w = Some (Abort, w')"
  shows "copy_skill s dest_root pol dry w = Some (Inl Aborted, w')"
  using assms by (simp add: copy_skill_def Let_def)

lemma makedirs_not_aborted: "makedirs fs p ok \<noteq> Inl Aborted"
  by (simp add: makedirs_def)

lemma rmtree_not_aborted: "rmtree fs p \<noteq> Inl Aborted"
  by (simp add: rmtree_def split: option.splits entry.splits)

lemma copytree_not_aborted: "copytree nested fs src dst \<noteq> Inl (Aborted, left)"
  using makedirs_not_aborted[of fs dst False]
  by (auto simp: copytree_def split: option.splits entry.splits sum.splits prod.splits)

lemma copy_skill_apply_not_aborted: "copy_skill_apply s d act dry w \<noteq> (Inl Aborted, w')"
  using copytree_not_aborted[of "nested_copy w" "files w" s d]
  by (auto simp: copy_skill_apply_def split: sum.splits prod.splits)

lemma copy_skill_aborted_iff:
  "copy_skill s dest_root pol dry w = Some (Inl Aborted, w') \<longleftrightarrow>
     path_exists (files w) (joinpath dest_root (name s)) \<and>
     resolve_conflict (joinpath dest_root (name s)) pol dry w = Some (Abort, w')"
  using rmtree_not_aborted
  by (auto simp: copy_skill_def Let_def copy_skill_apply_not_aborted
        split: option.splits if_splits sum.splits)

section \<open>Abort\<close>

lemma main_sync: "startup home args w = Inr (skills, w0) \<Longrightarrow> main home args w = sync_skills args skills w0"
  by (simp add: main_def)

text \<open>
  Claim C3. When the resolver answers \<^verbatim>\<open>abort\<close> for the skill \<open>s\<close>, after the skills
  \<open>pre\<close> have been processed, the loop stops there: the skills \<open>post\<close> are never
  looked at, the files are those left by the copies of \<open>pre\<close> (nothing is rolled
  back) and \<^verbatim>\<open>main\<close> returns 2.
\<close>

theorem abort_stops_run:
  assumes "startup home args w = Inr (pre @ s # post, w0)"
    and "copy_loop pre (dest args) (conflict args) (dry_run args) (\<lambda>a. 0) w0 = Some (Inr counts, w1)"
    and "path_exists (files w1) (joinpath (dest args) (name s))"
    and "resolve_conflict (joinpath (dest args) (name s)) (conflict args) (dry_run args) w1
           = Some (Abort, w2)"
  shows "copy_loop (pre @ s # post) (dest args) (conflict args) (dry_run args) (\<lambda>a. 0) w0
           = Some (Inl Aborted, w2) \<and>
         files w2 = files w1 \<and>
         main home args w = Some (Inr 2, emit (Stderr AbortedOnConflict) w2) \<and>
         files (emit (Stderr AbortedOnConflict) w2) = files w1"
proof -
  have "copy_skill s (dest args) (conflict args) (dry_run args) w1 = Some (Inl Aborted, w2)"
    using assms(3,4) by (rule copy_skill_abort)
  then have loop: "copy_loop (pre @ s # post) (dest args) (conflict args) (dry_run args) (\<lambda>a. 0) w0
           = Some (Inl Aborted, w2)"
    using assms(2) by (simp add: copy_loop_append)
  moreover have "files w2 = files w1"
    using assms(4) by (rule resolve_conflict_files)
  moreover have "main home args w = Some (Inr 2, emit (Stderr AbortedOnConflict) w2)"
    using loop by (simp add: main_sync[OF assms(1)] sync_skills_def is_RuntimeError_def)
  ultimately show ?thesis by simp
qed

theorem abort_stops_run_witness:
  "main [''h''] (example_args\<lparr>conflict := Abort\<rparr>) conflict_world =
     Some (Inr 2,
       \<lparr>nested_copy = stops_at_once, files = conflict_fs @ [([''d'', ''a''], Directory), ([''d'', ''a'', ''SKILL.md''], File ''A'')],
        stdin = (\<lambda>n. None),
        console =
          [Stdout SourcesHeader, Stdout (SourceLine [''s''] False), Stdout (DestinationLine [''d'']),
           Stdout (SettingsLine Sync Abort False), Stdout (SkillsFound 2),
           Stdout (ActionLine DoCopy ''a'' [''d'', ''a'']), Stderr AbortedOnConflict]\<rparr>)"
proof -
  let ?args = "example_args\<lparr>conflict := Abort\<rparr>"
  let ?w0 = "\<lparr>nested_copy = stops_at_once, files = conflict_fs, stdin = (\<lambda>n. None),
              console = [Stdout SourcesHeader, Stdout (SourceLine [''s''] False),
                         Stdout (DestinationLine [''d'']), Stdout (SettingsLine Sync Abort False),
                         Stdout (SkillsFound 2)]\<rparr>"
  let ?w1 = "\<lparr>nested_copy = stops_at_once, files = conflict_fs @ [([''d'', ''a''], Directory), ([''d'', ''a'', ''SKILL.md''], File ''A'')],
              stdin = (\<lambda>n. None),
              console = [Stdout SourcesHeader, Stdout (SourceLine [''s''] False),
                         Stdout (DestinationLine [''d'']), Stdout (SettingsLine Sync Abort False),
                         Stdout (SkillsFound 2), Stdout (ActionLine DoCopy ''a'' [''d'', ''a''])]\<rparr>"
  have 1: "startup [''h''] ?args conflict_world = Inr ([[''s'', ''a'']] @ [''s'', ''b''] # [], ?w0)"
    by (simp add: eval_defs conflict_fs_def conflict_world_def example_args_def)
  have 2: "copy_loop [[''s'', ''a'']] (dest ?args) (conflict ?args) (dry_run ?args) (\<lambda>a. 0) ?w0
             = Some (Inr ((\<lambda>a. 0)(DoCopy := 1)), ?w1)"
    by (simp add: eval_defs conflict_fs_def example_args_def)
  have 3: "path_exists (files ?w1) (joinpath (dest ?args) (name [''s'', ''b'']))"
    by (simp add: eval_defs conflict_fs_def example_args_def)
  have 4: "resolve_conflict (joinpath (dest ?args) (name [''s'', ''b''])) (conflict ?args)
             (dry_run ?args) ?w1 = Some (Abort, ?w1)"
    by (simp add: resolve_conflict_def example_args_def)
  from abort_stops_run[OF 1 2 3 4] show ?thesis
    by (simp add: emit_def)
qed

section \<open>Exit codes\<close>

lemma validate_sources_valid:
  "fst (validate_sources srcs w) = filter (\<lambda>pr. is_dir (files w) (fst pr)) srcs"
  by (induction srcs w rule: validate_sources.induct)
     (auto simp: is_dir_def path_exists_def split: prod.splits)

lemma validate_sources_eq:
  "validate_sources (build_sources home args) w = (valid_roots home args (files w), snd (validate_sources (build_sources home args) w))"
  by (simp add: valid_roots_def validate_sources_valid[symmetric])

lemma startup_usage:
  "startup home args w = Inr (skills, w0) \<Longrightarrow>
   \<not> (prune args \<and> mode args \<noteq> Sync) \<and> valid_roots home args (files w) \<noteq> []"
  using validate_sources_valid[of "build_sources home args" w]
  by (auto simp: startup_def valid_roots_def split: prod.splits sum.splits if_splits)

lemma resolve_conflict_ask_aborts:
  assumes "\<forall>i<k. \<exists>l. stdin w i = Some l \<and> lower (strip l) \<notin> set answers"
    and "stdin w k = None \<or>
         (\<exists>l. stdin w k = Some l \<and> lower (strip l) \<in> set [''a'', ''abort'', ''q'', ''quit''])"
  shows "\<exists>w'. resolve_conflict d Ask False w = Some (Abort, w')"
proof -
  have "resolve_conflict d Ask False w = prompt_loop d (reprompted d k w)"
    using prompt_loop_skip_unrecognised[OF assms(1)] by (simp add: resolve_conflict_def)
  moreover have "\<exists>w'. prompt_loop d (reprompted d k w) = Some (Abort, w')"
    using assms(2) by (subst prompt_loop_step) auto
  ultimately show ?thesis by simp
qed

lemma copy_loop_aborts:
  assumes "copy_loop pre dest_root pol dry counts w = Some (Inr counts1, w1)"
    and "path_exists (files w1) (joinpath dest_root (name s))"
    and "resolve_conflict (joinpath dest_root (name s)) pol dry w1 = Some (Abort, w2)"
  shows "copy_loop (pre @ s # post) dest_root pol dry counts w = Some (Inl Aborted, w2)"
  using assms by (simp add: copy_loop_append copy_skill_abort)

lemma recursion_error_is_caught:
  "copy_loop skills (dest args) (conflict args) (dry_run args) (\<lambda>a. 0) w0
     = Some (Inl RecursionError, w1) \<Longrightarrow>
   sync_skills args skills w0 = Some (Inr 2, emit (Stderr RecursionDepthExceeded) w1)"
  by (simp add: sync_skills_def is_RuntimeError_def)

text \<open>
  Claim C9. \<^verbatim>\<open>main\<close> returns 1 when \<^verbatim>\<open>--prune\<close> comes without \<^verbatim>\<open>--mode sync\<close> and
  when no source root is valid, both before any change to the files; 0 when the
  valid roots hold no skill, before any change too; 0 when the copies and the
  pruning go through. It returns 2, with the files left by the skills processed
  before, when the skill \<open>s\<close> meets an existing destination and the policy is
  \<^verbatim>\<open>abort\<close>, or the policy is \<^verbatim>\<open>ask\<close>, outside a dry run, and after \<open>k\<close> unrecognised
  answers the user answers with one of the words for abort or the input has ended.
\<close>

theorem exit_codes:
  "(prune args \<and> mode args \<noteq> Sync \<longrightarrow>
      main home args w = Some (Inr 1, emit (Stderr PruneOnlyValidWithSync) w)) \<and>
   (\<not> (prune args \<and> mode args \<noteq> Sync) \<and> valid_roots home args (files w) = [] \<longrightarrow>
      (\<exists>w'. main home args w = Some (Inr 1, emit (Stderr NoValidSourcesFound) w') \<and>
            files w' = files w)) \<and>
   (\<not> (prune args \<and> mode args \<noteq> Sync) \<and> valid_roots home args (files w) \<noteq> [] \<and>
    scan_sources (files w) (valid_roots home args (files w)) = Inr [] \<longrightarrow>
      (\<exists>w'. main home args w = Some (Inr 0, emit (Stdout NoSkillsFound) w') \<and>
            files w' = files w)) \<and>
   (startup home args w = Inr (skills, w0) \<and>
    copy_loop skills (dest args) (conflict args) (dry_run args) (\<lambda>a. 0) w0 = Some (Inr counts, w1) \<and>
    prune_step args skills w1 = (Inr pruned, w2) \<longrightarrow>
      main home args w =
        Some (Inr 0, emit (Stdout (Summary (counts DoCopy) (counts DoOverwrite) (counts DoSkip)
                                     (if prune args then Some pruned else None))) w2)) \<and>
   (startup home args w = Inr (pre @ s # post, w0) \<and>
    copy_loop pre (dest args) (conflict args) (dry_run args) (\<lambda>a. 0) w0 = Some (Inr counts, w1) \<and>
    path_exists (files w1) (joinpath (dest args) (name s)) \<and>
    (conflict args = Abort \<or>
     conflict args = Ask \<and> \<not> dry_run args \<and>
     (\<forall>i<k. \<exists>l. stdin w1 i = Some l \<and> lower (strip l) \<notin> set answers) \<and>
     (stdin w1 k = None \<or>
      (\<exists>l. stdin w1 k = Some l \<and> lower (strip l) \<in> set [''a'', ''abort'', ''q'', ''quit'']))) \<longrightarrow>
      (\<exists>w'. main home args w = Some (Inr 2, w') \<and> files w' = files w1))"
proof (intro conjI impI)
  assume "prune args \<and> mode args \<noteq> Sync"
  then show "main home args w = Some (Inr 1, emit (Stderr PruneOnlyValidWithSync) w)"
    by (simp add: main_def startup_def)
next
  assume a: "\<not> (prune args \<and> mode args \<noteq> Sync) \<and> valid_roots home args (files w) = []"
  let ?w' = "snd (validate_sources (build_sources home args) w)"
  have "main home args w = Some (Inr 1, emit (Stderr NoValidSourcesFound) ?w')"
    using a by (subst main_def, subst startup_def, subst validate_sources_eq) auto
  moreover have "files ?w' = files w"
    by (simp add: validate_sources_frame)
  ultimately show "\<exists>w'. main home args w = Some (Inr 1, emit (Stderr NoValidSourcesFound) w') \<and>
            files w' = files w"
    by blast
next
  assume a: "\<not> (prune args \<and> mode args \<noteq> Sync) \<and> valid_roots home args (files w) \<noteq> [] \<and>
    scan_sources (files w) (valid_roots home args (files w)) = Inr []"
  let ?w' = "snd (validate_sources (build_sources home args) w)"
  have f: "files ?w' = files w"
    by (simp add: validate_sources_frame)
  have "main home args w = Some (Inr 0, emit (Stdout NoSkillsFound) ?w')"
    using a f by (subst main_def, subst startup_def, subst validate_sources_eq) auto
  with f show "\<exists>w'. main home args w = Some (Inr 0, emit (Stdout NoSkillsFound) w') \<and>
            files w' = files w"
    by blast
next
  assume "startup home args w = Inr (skills, w0) \<and>
    copy_loop skills (dest args) (conflict args) (dry_run args) (\<lambda>a. 0) w0 = Some (Inr counts, w1) \<and>
    prune_step args skills w1 = (Inr pruned, w2)"
  then show "main home args w =
        Some (Inr 0, emit (Stdout (Summary (counts DoCopy) (counts DoOverwrite) (counts DoSkip)
                                     (if prune args then Some pruned else None))) w2)"
    by (simp add: main_def sync_skills_def)
next
  let ?dst = "joinpath (dest args) (name s)"
  assume a: "startup home args w = Inr (pre @ s # post, w0) \<and>
    copy_loop pre (dest args) (conflict args) (dry_run args) (\<lambda>a. 0) w0 = Some (Inr counts, w1) \<and>
    path_exists (files w1) (joinpath (dest args) (name s)) \<and>
    (conflict args = Abort \<or>
     conflict args = Ask \<and> \<not> dry_run args \<and>
     (\<forall>i<k. \<exists>l. stdin w1 i = Some l \<and> lower (strip l) \<notin> set answers) \<and>
     (stdin w1 k = None \<or>
      (\<exists>l. stdin w1 k = Some l \<and> lower (strip l) \<in> set [''a'', ''abort'', ''q'', ''quit''])))"
  then have start: "startup home args w = Inr (pre @ s # post, w0)"
    and pre: "copy_loop pre (dest args) (conflict args) (dry_run args) (\<lambda>a. 0) w0
                = Some (Inr counts, w1)"
    and ex: "path_exists (files w1) ?dst"
    by simp_all
  have "\<exists>w2. resolve_conflict ?dst (conflict args) (dry_run args) w1 = Some (Abort, w2)"
  proof (cases "conflict args = Abort")
    case True
    then show ?thesis by (simp add: resolve_conflict_def)
  next
    case False
    with a have ask: "conflict args = Ask" "\<not> dry_run args"
      and junk: "\<forall>i<k. \<exists>l. stdin w1 i = Some l \<and> lower (strip l) \<notin> set answers"
      and last: "stdin w1 k = None \<or>
         (\<exists>l. stdin w1 k = Some l \<and> lower (strip l) \<in> set [''a'', ''abort'', ''q'', ''quit''])"
      by simp_all
    from resolve_conflict_ask_aborts[OF junk last, of ?dst] ask show ?thesis
      by simp
  qed
  then obtain w2 where
    r: "resolve_conflict ?dst (conflict args) (dry_run args) w1 = Some (Abort, w2)" ..
  have "copy_loop (pre @ s # post) (dest args) (conflict args) (dry_run args) (\<lambda>a. 0) w0
          = Some (Inl Aborted, w2)"
    using pre ex r by (rule copy_loop_aborts)
  then have "main home args w = Some (Inr 2, emit (Stderr AbortedOnConflict) w2)"
    by (simp add: main_sync[OF start] sync_skills_def is_RuntimeError_def)
  moreover have "files (emit (Stderr AbortedOnConflict) w2) = files w1"
    using resolve_conflict_files[OF r] by simp
  ultimately show "\<exists>w'. main home args w = Some (Inr 2, w') \<and> files w' = files w1"
    by blast
qed

lemma normalise_what: "lower (strip ''what'') = ''what''"
  by code_simp

lemma normalise_Q: "lower (strip '' Q'') = ''q''"
  by code_simp

theorem exit_codes_witness:
  "main [''h''] (example_args\<lparr>mode := Copy\<rparr>) example_world =
     Some (Inr 1, emit (Stderr PruneOnlyValidWithSync) example_world) \<and>
   (\<exists>w'. main [''h''] (example_args\<lparr>source := [''nowhere'']\<rparr>) example_world =
            Some (Inr 1, emit (Stderr NoValidSourcesFound) w') \<and> files w' = files example_world) \<and>
   (\<exists>w'. main [''h''] (example_args\<lparr>source := [''d'']\<rparr>) example_world =
            Some (Inr 0, emit (Stdout NoSkillsFound) w') \<and> files w' = files example_world) \<and>
   (\<exists>w'. main [''h''] example_args conflict_world = Some (Inr 0, w')) \<and>
   (\<exists>w'. main [''h''] (example_args\<lparr>conflict := Abort\<rparr>) conflict_world = Some (Inr 2, w') \<and>
      files w' = conflict_fs @ [([''d'', ''a''], Directory), ([''d'', ''a'', ''SKILL.md''], File ''A'')]) \<and>
   (\<exists>w'. main [''h''] (example_args\<lparr>conflict := Ask\<rparr>) (conflict_world\<lparr>stdin := abort_answers\<rparr>)
            = Some (Inr 2, w') \<and>
      files w' = conflict_fs @ [([''d'', ''a''], Directory), ([''d'', ''a'', ''SKILL.md''], File ''A'')]) \<and>
   (\<exists>w'. main [''h''] (example_args\<lparr>conflict := Ask\<rparr>) conflict_world = Some (Inr 2, w') \<and>
      files w' = conflict_fs @ [([''d'', ''a''], Directory), ([''d'', ''a'', ''SKILL.md''], File ''A'')])"
proof (intro conjI)
  show "main [''h''] (example_args\<lparr>mode := Copy\<rparr>) example_world =
     Some (Inr 1, emit (Stderr PruneOnlyValidWithSync) example_world)"
    by (rule exit_codes[THEN conjunct1, rule_format]) (simp add: example_args_def)
next
  show "\<exists>w'. main [''h''] (example_args\<lparr>source := [''nowhere'']\<rparr>) example_world =
            Some (Inr 1, emit (Stderr NoValidSourcesFound) w') \<and> files w' = files example_world"
    by (rule exit_codes[THEN conjunct2, THEN conjunct1, rule_format])
       (simp add: eval_defs example_fs_def example_world_def example_args_def)
next
  show "\<exists>w'. main [''h''] (example_args\<lparr>source := [''d'']\<rparr>) example_world =
            Some (Inr 0, emit (Stdout NoSkillsFound) w') \<and> files w' = files example_world"
    by (rule exit_codes[THEN conjunct2, THEN conjunct2, THEN conjunct1, rule_format])
       (simp add: eval_defs example_fs_def example_world_def example_args_def)
next
  let ?skills = "[[''s'', ''a''], [''s'', ''b'']]"
  let ?w0 = "\<lparr>nested_copy = stops_at_once, files = conflict_fs, stdin = (\<lambda>n. None),
              console = [Stdout SourcesHeader, Stdout (SourceLine [''s''] False),
                         Stdout (DestinationLine [''d'']), Stdout (SettingsLine Sync Overwrite False),
                         Stdout (SkillsFound 2)]\<rparr>"
  let ?w2 = "\<lparr>nested_copy = stops_at_once, files =
         [([], Directory), ([''s''], Directory),
          ([''s'', ''a''], Directory), ([''s'', ''a'', ''SKILL.md''], File ''A''),
          ([''s'', ''b''], Directory), ([''s'', ''b'', ''SKILL.md''], File ''B''),
          ([''d''], Directory),
          ([''d'', ''a''], Directory), ([''d'', ''a'', ''SKILL.md''], File ''A''),
          ([''d'', ''b''], Directory), ([''d'', ''b'', ''SKILL.md''], File ''B'')],
         stdin = (\<lambda>n. None),
         console = [Stdout SourcesHeader, Stdout (SourceLine [''s''] False),
                    Stdout (DestinationLine [''d'']), Stdout (SettingsLine Sync Overwrite False),
                    Stdout (SkillsFound 2), Stdout (ActionLine DoCopy ''a'' [''d'', ''a'']),
                    Stdout (ActionLine DoOverwrite ''b'' [''d'', ''b''])]\<rparr>"
  let ?counts = "(\<lambda>a. 0)(DoCopy := 1, DoOverwrite := 1) :: action \<Rightarrow> nat"
  have s: "startup [''h''] example_args conflict_world = Inr (?skills, ?w0)"
    by (simp add: eval_defs conflict_fs_def conflict_world_def example_args_def)
  have c: "copy_loop ?skills (dest example_args) (conflict example_args) (dry_run example_args)
            (\<lambda>a. 0) ?w0 = Some (Inr ?counts, ?w2)"
    by (simp add: eval_defs conflict_fs_def example_args_def)
  have p: "prune_step example_args ?skills ?w2 = (Inr 0, ?w2)"
    by (simp add: eval_defs example_args_def)
  have "main [''h''] example_args conflict_world =
        Some (Inr 0, emit (Stdout (Summary (?counts DoCopy) (?counts DoOverwrite) (?counts DoSkip)
                                     (if prune example_args then Some 0 else None))) ?w2)"
    using s c p
    by (intro exit_codes[THEN conjunct2, THEN conjunct2, THEN conjunct2, THEN conjunct1, rule_format]
          conjI)
  then show "\<exists>w'. main [''h''] example_args conflict_world = Some (Inr 0, w')"
    by (rule exI)
next
  let ?args = "example_args\<lparr>conflict := Abort\<rparr>"
  let ?w0 = "\<lparr>nested_copy = stops_at_once, files = conflict_fs, stdin = (\<lambda>n. None),
              console = [Stdout SourcesHeader, Stdout (SourceLine [''s''] False),
                         Stdout (DestinationLine [''d'']), Stdout (SettingsLine Sync Abort False),
                         Stdout (SkillsFound 2)]\<rparr>"
  let ?w1 = "\<lparr>nested_copy = stops_at_once,
              files = conflict_fs @ [([''d'', ''a''], Directory), ([''d'', ''a'', ''SKILL.md''], File ''A'')],
              stdin = (\<lambda>n. None),
              console = [Stdout SourcesHeader, Stdout (SourceLine [''s''] False),
                         Stdout (DestinationLine [''d'']), Stdout (SettingsLine Sync Abort False),
                         Stdout (SkillsFound 2), Stdout (ActionLine DoCopy ''a'' [''d'', ''a''])]\<rparr>"
  have s: "startup [''h''] ?args conflict_world = Inr ([[''s'', ''a'']] @ [''s'', ''b''] # [], ?w0)"
    by (simp add: eval_defs conflict_fs_def conflict_world_def example_args_def)
  have c: "copy_loop [[''s'', ''a'']] (dest ?args) (conflict ?args) (dry_run ?args) (\<lambda>a. 0) ?w0
            = Some (Inr ((\<lambda>a. 0)(DoCopy := 1)), ?w1)"
    by (simp add: eval_defs conflict_fs_def example_args_def)
  have e: "path_exists (files ?w1) (joinpath (dest ?args) (name [''s'', ''b'']))"
    by (simp add: eval_defs conflict_fs_def example_args_def)
  have p: "conflict ?args = Abort \<or>
     conflict ?args = Ask \<and> \<not> dry_run ?args \<and>
     (\<forall>i<0. \<exists>l. stdin ?w1 i = Some l \<and> lower (strip l) \<notin> set answers) \<and>
     (stdin ?w1 0 = None \<or>
      (\<exists>l. stdin ?w1 0 = Some l \<and> lower (strip l) \<in> set [''a'', ''abort'', ''q'', ''quit'']))"
    by simp
  have "\<exists>w'. main [''h''] ?args conflict_world = Some (Inr 2, w') \<and> files w' = files ?w1"
    by (rule exit_codes[THEN conjunct2, THEN conjunct2, THEN conjunct2, THEN conjunct2,
            rule_format, OF conjI[OF s conjI[OF c conjI[OF e p]]]])
  then show "\<exists>w'. main [''h''] ?args conflict_world = Some (Inr 2, w') \<and>
      files w' = conflict_fs @ [([''d'', ''a''], Directory), ([''d'', ''a'', ''SKILL.md''], File ''A'')]"
    by simp
next
  let ?args = "example_args\<lparr>conflict := Ask\<rparr>"
  let ?w0 = "\<lparr>nested_copy = stops_at_once, files = conflict_fs, stdin = abort_answers,
              console = [Stdout SourcesHeader, Stdout (SourceLine [''s''] False),
                         Stdout (DestinationLine [''d'']), Stdout (SettingsLine Sync Ask False),
                         Stdout (SkillsFound 2)]\<rparr>"
  let ?w1 = "\<lparr>nested_copy = stops_at_once,
              files = conflict_fs @ [([''d'', ''a''], Directory), ([''d'', ''a'', ''SKILL.md''], File ''A'')],
              stdin = abort_answers,
              console = [Stdout SourcesHeader, Stdout (SourceLine [''s''] False),
                         Stdout (DestinationLine [''d'']), Stdout (SettingsLine Sync Ask False),
                         Stdout (SkillsFound 2), Stdout (ActionLine DoCopy ''a'' [''d'', ''a''])]\<rparr>"
  have s: "startup [''h''] ?args (conflict_world\<lparr>stdin := abort_answers\<rparr>)
             = Inr ([[''s'', ''a'']] @ [''s'', ''b''] # [], ?w0)"
    by (simp add: eval_defs conflict_fs_def conflict_world_def example_args_def)
  have c: "copy_loop [[''s'', ''a'']] (dest ?args) (conflict ?args) (dry_run ?args) (\<lambda>a. 0) ?w0
            = Some (Inr ((\<lambda>a. 0)(DoCopy := 1)), ?w1)"
    by (simp add: eval_defs conflict_fs_def example_args_def)
  have e: "path_exists (files ?w1) (joinpath (dest ?args) (name [''s'', ''b'']))"
    by (simp add: eval_defs conflict_fs_def example_args_def)
  have p: "conflict ?args = Abort \<or>
     conflict ?args = Ask \<and> \<not> dry_run ?args \<and>
     (\<forall>i<1. \<exists>l. stdin ?w1 i = Some l \<and> lower (strip l) \<notin> set answers) \<and>
     (stdin ?w1 1 = None \<or>
      (\<exists>l. stdin ?w1 1 = Some l \<and> lower (strip l) \<in> set [''a'', ''abort'', ''q'', ''quit'']))"
    by (simp add: example_args_def abort_answers_def normalise_what normalise_Q answers_def)
  have "\<exists>w'. main [''h''] ?args (conflict_world\<lparr>stdin := abort_answers\<rparr>) = Some (Inr 2, w') \<and>
          files w' = files ?w1"
    by (rule exit_codes[THEN conjunct2, THEN conjunct2, THEN conjunct2, THEN conjunct2,
            rule_format, OF conjI[OF s conjI[OF c conjI[OF e p]]]])
  then show "\<exists>w'. main [''h''] ?args (conflict_world\<lparr>stdin := abort_answers\<rparr>) = Some (Inr 2, w') \<and>
      files w' = conflict_fs @ [([''d'', ''a''], Directory), ([''d'', ''a'', ''SKILL.md''], File ''A'')]"
    by simp
next
  let ?args = "example_args\<lparr>conflict := Ask\<rparr>"
  let ?w0 = "\<lparr>nested_copy = stops_at_once, files = conflict_fs, stdin = (\<lambda>n. None),
              console = [Stdout SourcesHeader, Stdout (SourceLine [''s''] False),
                         Stdout (DestinationLine [''d'']), Stdout (SettingsLine Sync Ask False),
                         Stdout (SkillsFound 2)]\<rparr>"
  let ?w1 = "\<lparr>nested_copy = stops_at_once,
              files = conflict_fs @ [([''d'', ''a''], Directory), ([''d'', ''a'', ''SKILL.md''], File ''A'')],
              stdin = (\<lambda>n. None),
              console = [Stdout SourcesHeader, Stdout (SourceLine [''s''] False),
                         Stdout (DestinationLine [''d'']), Stdout (SettingsLine Sync Ask False),
                         Stdout (SkillsFound 2), Stdout (ActionLine DoCopy ''a'' [''d'', ''a''])]\<rparr>"
  have s: "startup [''h''] ?args conflict_world = Inr ([[''s'', ''a'']] @ [''s'', ''b''] # [], ?w0)"
    by (simp add: eval_defs conflict_fs_def conflict_world_def example_args_def)
  have c: "copy_loop [[''s'', ''a'']] (dest ?args) (conflict ?args) (dry_run ?args) (\<lambda>a. 0) ?w0
            = Some (Inr ((\<lambda>a. 0)(DoCopy := 1)), ?w1)"
    by (simp add: eval_defs conflict_fs_def example_args_def)
  have e: "path_exists (files ?w1) (joinpath (dest ?args) (name [''s'', ''b'']))"
    by (simp add: eval_defs conflict_fs_def example_args_def)
  have p: "conflict ?args = Abort \<or>
     conflict ?args = Ask \<and> \<not> dry_run ?args \<and>
     (\<forall>i<0. \<exists>l. stdin ?w1 i = Some l \<and> lower (strip l) \<notin> set answers) \<and>
     (stdin ?w1 0 = None \<or>
      (\<exists>l. stdin ?w1 0 = Some l \<and> lower (strip l) \<in> set [''a'', ''abort'', ''q'', ''quit'']))"
    by (simp add: example_args_def)
  have "\<exists>w'. main [''h''] ?args conflict_world = Some (Inr 2, w') \<and> files w' = files ?w1"
    by (rule exit_codes[THEN conjunct2, THEN conjunct2, THEN conjunct2, THEN conjunct2,
            rule_format, OF conjI[OF s conjI[OF c conjI[OF e p]]]])
  then show "\<exists>w'. main [''h''] ?args conflict_world = Some (Inr 2, w') \<and>
      files w' = conflict_fs @ [([''d'', ''a''], Directory), ([''d'', ''a'', ''SKILL.md''], File ''A'')]"
    by simp
qed

section \<open>Lookups after the primitives\<close>

lemma lookup_append:
  "lookup (fs @ gs) p = (case lookup fs p of None \<Rightarrow> lookup gs p | Some e \<Rightarrow> Some e)"
  by (simp add: lookup_def map_add_def split: option.splits)

lemma lookup_remove_tree:
  "lookup (filter (\<lambda>qe. \<not> prefix d (fst qe)) fs) p = (if prefix d p then None else lookup fs p)"
  by (induction fs) (auto simp: lookup_def)

lemma rmtree_Inr:
  "rmtree fs d = Inr fs' \<longleftrightarrow> is_dir fs d \<and> fs' = filter (\<lambda>qe. \<not> prefix d (fst qe)) fs"
  by (auto simp: rmtree_def is_dir_def split: option.splits entry.splits)

lemma rmtree_lookup:
  "rmtree fs d = Inr fs' \<Longrightarrow> lookup fs' p = (if prefix d p then None else lookup fs p)"
  by (simp add: rmtree_Inr lookup_remove_tree)

lemma lookup_new_dirs:
  "lookup (map (\<lambda>q. (q, Directory)) qs) p = (if p \<in> set qs then Some Directory else None)"
  by (induction qs) (auto simp: lookup_def)

lemma makedirs_lookup:
  "makedirs fs p ok = Inr fs' \<Longrightarrow>
   lookup fs' q = (case lookup fs q of
                     Some e \<Rightarrow> Some e
                   | None \<Rightarrow> if prefix q p then Some Directory else None)"
  by (auto simp: makedirs_def lookup_append lookup_new_dirs in_set_prefixes path_exists_def
        split: if_splits option.splits)

lemma lookup_copies:
  "lookup (map (\<lambda>qe. (dst @ drop (length src) (fst qe), snd qe))
            (filter (\<lambda>qe. strict_prefix src (fst qe)) fs)) q =
     (if strict_prefix dst q then lookup fs (src @ drop (length dst) q) else None)"
proof (induction fs)
  case Nil
  then show ?case by (simp add: lookup_def)
next
  case (Cons ke fs)
  obtain k e where ke: "ke = (k, e)" by (cases ke)
  show ?case
  proof (cases "strict_prefix src k")
    case True
    then obtain r where k: "k = src @ r" "r \<noteq> []"
      by (auto simp: strict_prefix_def prefix_def)
    show ?thesis
    proof (cases "q = dst @ r")
      case True
      with k ke show ?thesis by (simp add: lookup_def strict_prefix_def)
    next
      case False
      have "strict_prefix dst q \<Longrightarrow> k \<noteq> src @ drop (length dst) q"
        using False k by (auto simp: strict_prefix_def prefix_def)
      with Cons.IH ke k False \<open>strict_prefix src k\<close> show ?thesis
        by (auto simp: lookup_def)
    qed
  next
    case False
    have "strict_prefix dst q \<Longrightarrow> k \<noteq> src @ drop (length dst) q"
      using False by (auto simp: strict_prefix_def prefix_def)
    with Cons.IH ke False show ?thesis
      by (auto simp: lookup_def)
  qed
qed

lemma copytree_lookup:
  assumes "copytree nested fs src dst = Inr fs'"
  shows "lookup fs' q =
     (case lookup fs q of
        Some e \<Rightarrow> Some e
      | None \<Rightarrow> if prefix q dst then Some Directory
                else if strict_prefix dst q then lookup fs (src @ drop (length dst) q)
                else None)"
proof -
  from assms obtain fs1 where m: "makedirs fs dst False = Inr fs1"
    and fs': "fs' = fs1 @ map (\<lambda>qe. (dst @ drop (length src) (fst qe), snd qe))
                             (filter (\<lambda>qe. strict_prefix src (fst qe)) fs)"
    by (auto simp: copytree_def split: option.splits entry.splits sum.splits if_splits prod.splits)
  show ?thesis
    unfolding fs' lookup_append makedirs_lookup[OF m] lookup_copies
    by (auto split: option.splits simp: strict_prefix_def)
qed

lemma copytree_src_dir: "copytree nested fs src dst = Inr fs' \<Longrightarrow> is_dir fs src"
  by (auto simp: copytree_def is_dir_def split: option.splits entry.splits)

lemma copytree_dst_fresh: "copytree nested fs src dst = Inr fs' \<Longrightarrow> \<not> path_exists fs dst"
  by (auto simp: copytree_def makedirs_def
        split: option.splits entry.splits sum.splits if_splits prod.splits)

lemma copytree_keeps:
  "copytree nested fs src dst = Inr fs' \<Longrightarrow> path_exists fs p \<Longrightarrow> lookup fs' p = lookup fs p"
  by (auto simp: copytree_lookup path_exists_def)

lemma copytree_creates: "copytree nested fs src dst = Inr fs' \<Longrightarrow> is_dir fs' dst"
  using copytree_dst_fresh[of nested fs src dst fs']
  by (simp add: copytree_lookup is_dir_def path_exists_def)

section \<open>Well-formed trees\<close>






section \<open>Overwriting\<close>

lemma joinpath_cases: "joinpath p n = p \<and> n = [] \<or> joinpath p n = p @ [n] \<and> n \<noteq> []"
  by (simp add: joinpath_def)




section \<open>Pruning\<close>

lemma direct_scan_mem:
  "list_skill_dirs fs root False = Inr ds \<Longrightarrow>
   d \<in> set ds \<longleftrightarrow> d \<noteq> [] \<and> parent d = root \<and> \<not> startswith_dot (name d) \<and>
                  is_dir fs d \<and> is_file fs (d @ [''SKILL.md''])"
  using is_dir_listed[of fs d]
  by (auto simp: list_skill_dirs_def iterdir_def split: option.splits entry.splits)

lemma direct_scan_distinct: "list_skill_dirs fs root False = Inr ds \<Longrightarrow> distinct ds"
  by (auto simp: list_skill_dirs_def iterdir_def split: option.splits entry.splits)

lemma prune_loop_lookup:
  "prune_loop names dry ds n w = (r, w') \<Longrightarrow>
   lookup (files w') p = lookup (files w) p \<or>
   lookup (files w') p = None \<and> (\<exists>d\<in>set ds. name d \<notin> names \<and> prefix d p)"
proof (induction ds arbitrary: n w)
  case Nil
  then show ?case by simp
next
  case (Cons d ds)
  show ?case
  proof (cases "name d \<in> names")
    case True
    with Cons.prems have "prune_loop names dry ds n w = (r, w')" by simp
    from Cons.IH[OF this] show ?thesis by auto
  next
    case out: False
    show ?thesis
    proof (cases dry)
      case True
      with out Cons.prems
      have "prune_loop names dry ds (n + 1) (emit (Stdout (PruneLine (name d) d)) w) = (r, w')"
        by simp
      from Cons.IH[OF this] show ?thesis by auto
    next
      case False
      show ?thesis
      proof (cases "rmtree (files w) d")
        case (Inl e)
        with out False Cons.prems show ?thesis by simp
      next
        case (Inr fs')
        with out False Cons.prems
        have "prune_loop names dry ds (n + 1) (w\<lparr>files := fs'\<rparr>) = (r, w')" by simp
        from Cons.IH[OF this] rmtree_lookup[OF Inr, of p] out show ?thesis
          by (auto split: if_splits)
      qed
    qed
  qed
qed

lemma prune_loop_removed:
  "prune_loop names False ds n w = (Inr m, w') \<Longrightarrow>
   lookup (files w') p =
     (if \<exists>d\<in>set ds. name d \<notin> names \<and> prefix d p then None else lookup (files w) p)"
proof (induction ds arbitrary: n w)
  case Nil
  then show ?case by simp
next
  case (Cons d ds)
  show ?case
  proof (cases "name d \<in> names")
    case True
    with Cons.prems have "prune_loop names False ds n w = (Inr m, w')" by simp
    from Cons.IH[OF this] True show ?thesis by auto
  next
    case out: False
    show ?thesis
    proof (cases "rmtree (files w) d")
      case (Inl e)
      with out Cons.prems show ?thesis by simp
    next
      case (Inr fs')
      with out Cons.prems
      have "prune_loop names False ds (n + 1) (w\<lparr>files := fs'\<rparr>) = (Inr m, w')" by simp
      from Cons.IH[OF this] rmtree_lookup[OF Inr, of p] out show ?thesis
        by (auto split: if_splits)
    qed
  qed
qed

lemma sibling_prefix:
  assumes "d \<noteq> []" "parent d = root" "e \<noteq> []" "parent e = root" "prefix d (e @ rest)"
  shows "d = e"
proof -
  obtain a b where d: "d = root @ [a]" and e: "e = root @ [b]"
    using assms(1-4) child_decompose by blast
  from assms(5) have "prefix [a] (b # rest)"
    unfolding d e by simp
  then show ?thesis
    unfolding d e by simp
qed

text \<open>
  Claim C10. Whatever \<^verbatim>\<open>prune_dest\<close> returns, a path whose entry has changed is gone
  and lies in a direct child of the destination that is not hidden, is a directory,
  holds a regular file \<^verbatim>\<open>SKILL.md\<close> and has a name outside the source names. So
  everything in and below a direct child that is hidden, is not a directory or has
  no marker file stays as it was.
\<close>

theorem prune_spares_other_entries:
  assumes "prune_dest names dest_root dry w = (r, w')"
  shows "(\<forall>p. lookup (files w') p = lookup (files w) p \<or>
              lookup (files w') p = None \<and>
              (\<exists>d. prefix d p \<and> d \<noteq> [] \<and> parent d = dest_root \<and> \<not> startswith_dot (name d) \<and>
                   is_dir (files w) d \<and> is_file (files w) (d @ [''SKILL.md'']) \<and> name d \<notin> names)) \<and>
         (\<forall>e rest. e \<noteq> [] \<and> parent e = dest_root \<and>
                    (startswith_dot (name e) \<or> \<not> is_dir (files w) e \<or>
                     \<not> is_file (files w) (e @ [''SKILL.md''])) \<longrightarrow>
                    lookup (files w') (e @ rest) = lookup (files w) (e @ rest))"
proof -
  have removed: "lookup (files w') p = lookup (files w) p \<or>
              lookup (files w') p = None \<and>
              (\<exists>d. prefix d p \<and> d \<noteq> [] \<and> parent d = dest_root \<and> \<not> startswith_dot (name d) \<and>
                   is_dir (files w) d \<and> is_file (files w) (d @ [''SKILL.md'']) \<and> name d \<notin> names)" for p
  proof (cases "list_skill_dirs (files w) dest_root False")
    case (Inl e)
    with assms show ?thesis by (simp add: prune_dest_def)
  next
    case (Inr ds)
    with assms have "prune_loop names dry ds 0 w = (r, w')"
      by (simp add: prune_dest_def)
    from prune_loop_lookup[OF this, of p] show ?thesis
    proof
      assume "lookup (files w') p = lookup (files w) p"
      then show ?thesis by simp
    next
      assume "lookup (files w') p = None \<and> (\<exists>d\<in>set ds. name d \<notin> names \<and> prefix d p)"
      then obtain d where d: "lookup (files w') p = None" "d \<in> set ds" "name d \<notin> names" "prefix d p"
        by blast
      from direct_scan_mem[OF Inr, of d] d(2)
      have "d \<noteq> [] \<and> parent d = dest_root \<and> \<not> startswith_dot (name d) \<and>
            is_dir (files w) d \<and> is_file (files w) (d @ [''SKILL.md''])"
        by simp
      with d show ?thesis by blast
    qed
  qed
  have spared: "lookup (files w') (e @ rest) = lookup (files w) (e @ rest)"
    if e: "e \<noteq> []" "parent e = dest_root"
      and other: "startswith_dot (name e) \<or> \<not> is_dir (files w) e \<or>
                  \<not> is_file (files w) (e @ [''SKILL.md''])" for e rest
  proof (rule ccontr)
    assume "lookup (files w') (e @ rest) \<noteq> lookup (files w) (e @ rest)"
    with removed[of "e @ rest"] obtain d where d: "prefix d (e @ rest)" "d \<noteq> []" "parent d = dest_root"
      "\<not> startswith_dot (name d)" "is_dir (files w) d" "is_file (files w) (d @ [''SKILL.md''])"
      by blast
    from sibling_prefix[OF d(2,3) e d(1)] have "d = e" .
    with d other show False by simp
  qed
  from removed spared show ?thesis by blast
qed

theorem prune_spares_other_entries_witness:
  "\<exists>r w'. prune_dest {''a''} [''d''] False stale_world = (r, w') \<and>
      lookup (files w') [''d'', ''.sys'', ''SKILL.md''] = Some (File ''S'') \<and>
      lookup (files w') [''d'', ''notes.txt''] = Some (File ''n'') \<and>
      lookup (files w') [''d'', ''plain'', ''f''] = Some (File ''p'')"
proof -
  obtain r w' where p: "prune_dest {''a''} [''d''] False stale_world = (r, w')"
    by (cases "prune_dest {''a''} [''d''] False stale_world")
  note spared = prune_spares_other_entries[OF p, THEN conjunct2, rule_format]
  have "lookup (files w') ([''d'', ''.sys''] @ [''SKILL.md'']) = lookup (files stale_world) ([''d'', ''.sys''] @ [''SKILL.md''])"
    by (rule spared) (simp add: parent_def name_def startswith_dot_def)
  moreover have "lookup (files w') ([''d'', ''notes.txt''] @ []) = lookup (files stale_world) ([''d'', ''notes.txt''] @ [])"
    by (rule spared) (simp add: parent_def eval_defs stale_fs_def stale_world_def)
  moreover have "lookup (files w') ([''d'', ''plain''] @ [''f'']) = lookup (files stale_world) ([''d'', ''plain''] @ [''f''])"
    by (rule spared) (simp add: parent_def eval_defs stale_fs_def stale_world_def)
  ultimately show ?thesis
    using p by (simp add: lookup_def stale_fs_def stale_world_def)
qed

section \<open>What a successful copy step leaves\<close>

lemma copy_skill_done:
  assumes "copy_skill s dest_root pol False w = Some (Inr act, w')"
  shows "(act = DoSkip \<and> path_exists (files w) (joinpath dest_root (name s)) \<and> files w' = files w) \<or>
         (act = DoCopy \<and> \<not> path_exists (files w) (joinpath dest_root (name s)) \<and>
            copytree (nested_copy w) (files w) s (joinpath dest_root (name s)) = Inr (files w')) \<or>
         (act = DoOverwrite \<and> path_exists (files w) (joinpath dest_root (name s)) \<and>
            (\<exists>fs1. rmtree (files w) (joinpath dest_root (name s)) = Inr fs1 \<and>
                   copytree (nested_copy w) fs1 s (joinpath dest_root (name s)) = Inr (files w')))"
proof (cases "path_exists (files w) (joinpath dest_root (name s))")
  case False
  with assms show ?thesis
    by (auto simp: copy_skill_def copy_skill_apply_def Let_def split: sum.splits)
next
  case True
  with assms obtain dec w1 where
    r: "resolve_conflict (joinpath dest_root (name s)) pol False w = Some (dec, w1)"
    by (auto simp: copy_skill_def Let_def split: option.splits)
  have f: "files w1 = files w" "nested_copy w1 = nested_copy w"
    using r by (rule resolve_conflict_files, rule resolve_conflict_environment)
  show ?thesis
  proof (cases dec)
    case Ask
    with assms True r f copytree_dst_fresh[of "nested_copy w" "files w" s "joinpath dest_root (name s)"]
    show ?thesis
      by (auto simp: copy_skill_def copy_skill_apply_def Let_def split: sum.splits)
  next
    case Skip
    with assms True r f show ?thesis
      by (auto simp: copy_skill_def Let_def)
  next
    case Overwrite
    with assms True r f show ?thesis
      by (auto simp: copy_skill_def copy_skill_apply_def Let_def split: sum.splits)
  next
    case Abort
    with assms True r show ?thesis
      by (auto simp: copy_skill_def Let_def)
  qed
qed

lemma copy_skill_lands:
  assumes "copy_skill s dest_root pol False w = Some (Inr act, w')"
  shows "path_exists (files w') (joinpath dest_root (name s))"
  using copy_skill_done[OF assms] copytree_creates
  by (auto simp: is_dir_def path_exists_def)

lemma copy_skill_keeps_dest:
  assumes "copy_skill s dest_root pol False w = Some (Inr act, w')"
    and "path_exists (files w) dest_root"
  shows "path_exists (files w') dest_root"
proof -
  have pre: "prefix dest_root (joinpath dest_root (name s))"
    by (simp add: joinpath_def)
  from copy_skill_done[OF assms(1)] show ?thesis
  proof (elim disjE conjE exE)
    assume "files w' = files w"
    with assms(2) show ?thesis by simp
  next
    assume "copytree (nested_copy w) (files w) s (joinpath dest_root (name s)) = Inr (files w')"
    from copytree_keeps[OF this assms(2)] assms(2) show ?thesis
      by (simp add: path_exists_def)
  next
    fix fs1
    assume "copytree (nested_copy w) fs1 s (joinpath dest_root (name s)) = Inr (files w')"
    from copytree_lookup[OF this, of dest_root] pre show ?thesis
      by (auto simp: path_exists_def split: option.splits)
  qed
qed

lemma copy_skill_keeps_sibling:
  assumes "copy_skill s dest_root pol False w = Some (Inr act, w')"
    and "name s \<noteq> []"
    and "path_exists (files w) (dest_root @ [n])"
  shows "path_exists (files w') (dest_root @ [n])"
proof -
  have j: "joinpath dest_root (name s) = dest_root @ [name s]"
    using assms(2) by (simp add: joinpath_def)
  from copy_skill_done[OF assms(1)] show ?thesis
    unfolding j
  proof (elim disjE conjE exE)
    assume "files w' = files w"
    with assms(3) show ?thesis by simp
  next
    assume "copytree (nested_copy w) (files w) s (dest_root @ [name s]) = Inr (files w')"
    from copytree_keeps[OF this assms(3)] assms(3) show ?thesis
      by (simp add: path_exists_def)
  next
    fix fs1
    assume rm: "rmtree (files w) (dest_root @ [name s]) = Inr fs1"
      and cp: "copytree (nested_copy w) fs1 s (dest_root @ [name s]) = Inr (files w')"
    show ?thesis
    proof (cases "n = name s")
      case True
      with copytree_creates[OF cp] show ?thesis
        by (simp add: is_dir_def path_exists_def)
    next
      case False
      then have "lookup fs1 (dest_root @ [n]) = lookup (files w) (dest_root @ [n])"
        using rmtree_lookup[OF rm, of "dest_root @ [n]"] by simp
      with assms(3) have "path_exists fs1 (dest_root @ [n])"
        by (simp add: path_exists_def)
      from copytree_keeps[OF cp this] this show ?thesis
        by (simp add: path_exists_def)
    qed
  qed
qed

lemma copy_loop_keeps_dest:
  "copy_loop skills dest_root pol False counts w = Some (Inr counts', w') \<Longrightarrow>
   path_exists (files w) dest_root \<Longrightarrow> path_exists (files w') dest_root"
proof (induction skills arbitrary: counts w)
  case Nil
  then show ?case by simp
next
  case (Cons s skills)
  from Cons.prems(1) obtain act w1 where
    s: "copy_skill s dest_root pol False w = Some (Inr act, w1)"
    and rest: "copy_loop skills dest_root pol False (counts(act := counts act + 1))
                 (emit (Stdout (ActionLine act (name s) (joinpath dest_root (name s)))) w1)
               = Some (Inr counts', w')"
    by (auto split: option.splits sum.splits prod.splits)
  from copy_skill_keeps_dest[OF s Cons.prems(2)] Cons.IH[OF rest] show ?case
    by simp
qed

lemma copy_loop_keeps_sibling:
  "copy_loop skills dest_root pol False counts w = Some (Inr counts', w') \<Longrightarrow>
   \<forall>s\<in>set skills. name s \<noteq> [] \<Longrightarrow>
   path_exists (files w) (dest_root @ [n]) \<Longrightarrow> path_exists (files w') (dest_root @ [n])"
proof (induction skills arbitrary: counts w)
  case Nil
  then show ?case by simp
next
  case (Cons s skills)
  from Cons.prems(1) obtain act w1 where
    s: "copy_skill s dest_root pol False w = Some (Inr act, w1)"
    and rest: "copy_loop skills dest_root pol False (counts(act := counts act + 1))
                 (emit (Stdout (ActionLine act (name s) (joinpath dest_root (name s)))) w1)
               = Some (Inr counts', w')"
    by (auto split: option.splits sum.splits prod.splits)
  from Cons.prems(2) have ne: "name s \<noteq> []" "\<forall>s\<in>set skills. name s \<noteq> []"
    by simp_all
  from copy_skill_keeps_sibling[OF s ne(1) Cons.prems(3)] Cons.IH[OF rest ne(2)] show ?case
    by simp
qed

lemma copy_loop_lands:
  "copy_loop skills dest_root pol False counts w = Some (Inr counts', w') \<Longrightarrow>
   \<forall>s\<in>set skills. name s \<noteq> [] \<Longrightarrow>
   \<forall>s\<in>set skills. path_exists (files w') (dest_root @ [name s])"
proof (induction skills arbitrary: counts w)
  case Nil
  then show ?case by simp
next
  case (Cons s skills)
  from Cons.prems(1) obtain act w1 where
    s: "copy_skill s dest_root pol False w = Some (Inr act, w1)"
    and rest: "copy_loop skills dest_root pol False (counts(act := counts act + 1))
                 (emit (Stdout (ActionLine act (name s) (joinpath dest_root (name s)))) w1)
               = Some (Inr counts', w')"
    by (auto split: option.splits sum.splits prod.splits)
  from Cons.prems(2) have ne: "name s \<noteq> []" "\<forall>s\<in>set skills. name s \<noteq> []"
    by simp_all
  have "path_exists (files w1) (dest_root @ [name s])"
    using copy_skill_lands[OF s] ne(1) by (simp add: joinpath_def)
  then have "path_exists (files w') (dest_root @ [name s])"
    using copy_loop_keeps_sibling[OF rest ne(2)] by simp
  with Cons.IH[OF rest ne(2)] show ?case by simp
qed

section \<open>Sync with pruning\<close>

lemma ensure_dest_exists:
  "ensure_dest d False w = (Inr u, w') \<Longrightarrow> path_exists (files w') d"
  by (auto simp: ensure_dest_def path_exists_def makedirs_lookup split: if_splits sum.splits)

lemma startup_Inr:
  assumes "startup home args w = Inr (skills, w0)"
  shows "scan_sources (files w) (valid_roots home args (files w)) = Inr skills \<and> skills \<noteq> [] \<and>
         (\<not> dry_run args \<longrightarrow> path_exists (files w0) (dest args))"
proof -
  let ?wv = "snd (validate_sources (build_sources home args) w)"
  have f: "files ?wv = files w"
    by (simp add: validate_sources_frame)
  from assms have go: "\<not> (prune args \<and> mode args \<noteq> Sync)"
    by (auto simp: startup_def split: if_splits)
  from assms obtain u w2 where
    sc: "scan_sources (files ?wv) (valid_roots home args (files w)) = Inr skills" "skills \<noteq> []"
    and en: "ensure_dest (dest args) (dry_run args) ?wv = (Inr u, w2)"
    and w0: "w0 = print_settings args (valid_roots home args (files w)) (length skills) w2"
    unfolding startup_def
    by (subst (asm) validate_sources_eq) (auto simp: go split: if_splits sum.splits prod.splits)
  from en w0 have "\<not> dry_run args \<longrightarrow> path_exists (files w0) (dest args)"
    by (auto dest: ensure_dest_exists)
  with sc f show ?thesis by simp
qed

text \<open>
  Claim C2, as amended. Take a run in sync mode with pruning, outside a dry run,
  that found the skills \<open>skills\<close>, at least one, in the valid roots and returned 0.
  Then every direct child of the destination that the scanner takes as a skill (not
  hidden, a directory, holding a regular file \<^verbatim>\<open>SKILL.md\<close>) bears the name of a skill
  found. And if none of the skills found has the empty name, which is the name of
  the filesystem root, then every name found is a direct child of the destination.
\<close>

theorem sync_prune_result:
  assumes "mode args = Sync" and "prune args" and "\<not> dry_run args"
    and start: "startup home args w = Inr (skills, w0)"
    and finish: "main home args w = Some (Inr 0, w')"
  shows "scan_sources (files w) (valid_roots home args (files w)) = Inr skills \<and>
         (\<forall>d. d \<noteq> [] \<and> parent d = dest args \<and> \<not> startswith_dot (name d) \<and>
              is_dir (files w') d \<and> is_file (files w') (d @ [''SKILL.md''])
              \<longrightarrow> name d \<in> name ` set skills) \<and>
         ((\<forall>s\<in>set skills. name s \<noteq> []) \<longrightarrow>
            (\<forall>s\<in>set skills. path_exists (files w') (dest args @ [name s])))"
proof -
  let ?names = "name ` set skills"
  from startup_Inr[OF start] assms(3)
  have scan: "scan_sources (files w) (valid_roots home args (files w)) = Inr skills"
    and d0: "path_exists (files w0) (dest args)"
    by simp_all
  from finish have sync: "sync_skills args skills w0 = Some (Inr 0, w')"
    by (simp add: main_sync[OF start])
  then obtain counts w1 pruned w2 where
    loop: "copy_loop skills (dest args) (conflict args) False (\<lambda>a. 0) w0 = Some (Inr counts, w1)"
    and pr: "prune_step args skills w1 = (Inr pruned, w2)"
    and w': "files w' = files w2"
    using assms(3)
    by (auto simp: sync_skills_def split: option.splits sum.splits prod.splits if_splits)
  have d1: "path_exists (files w1) (dest args)"
    using copy_loop_keeps_dest[OF loop d0] .
  with pr assms(1-3) have "prune_dest ?names (dest args) False w1 = (Inr pruned, w2)"
    by (simp add: prune_step_def)
  then obtain ds where ds: "list_skill_dirs (files w1) (dest args) False = Inr ds"
    and pl: "prune_loop ?names False ds 0 w1 = (Inr pruned, w2)"
    by (auto simp: prune_dest_def split: sum.splits)
  have look: "lookup (files w') p =
     (if \<exists>d\<in>set ds. name d \<notin> ?names \<and> prefix d p then None else lookup (files w1) p)" for p
    unfolding w' by (rule prune_loop_removed[OF pl])
  have i: "name d \<in> ?names"
    if d: "d \<noteq> [] \<and> parent d = dest args \<and> \<not> startswith_dot (name d) \<and>
           is_dir (files w') d \<and> is_file (files w') (d @ [''SKILL.md''])" for d
  proof (rule ccontr)
    assume out: "name d \<notin> ?names"
    from d have "lookup (files w') d \<noteq> None" "lookup (files w') (d @ [''SKILL.md'']) \<noteq> None"
      by (auto simp: is_dir_def is_file_def split: option.splits)
    with look[of d] look[of "d @ [''SKILL.md'']"]
    have "lookup (files w') d = lookup (files w1) d"
      "lookup (files w') (d @ [''SKILL.md'']) = lookup (files w1) (d @ [''SKILL.md''])"
      by (auto split: if_splits)
    with d have "is_dir (files w1) d" "is_file (files w1) (d @ [''SKILL.md''])"
      by (simp_all add: is_dir_def is_file_def)
    with d direct_scan_mem[OF ds, of d] have "d \<in> set ds" by simp
    with out look[of d] have "lookup (files w') d = None" by auto
    with d show False by (simp add: is_dir_def)
  qed
  have ii: "path_exists (files w') (dest args @ [name s])"
    if ne: "\<forall>s\<in>set skills. name s \<noteq> []" and s: "s \<in> set skills" for s
  proof -
    from copy_loop_lands[OF loop ne] s have e1: "path_exists (files w1) (dest args @ [name s])"
      by simp
    have "\<not> (\<exists>d\<in>set ds. name d \<notin> ?names \<and> prefix d (dest args @ [name s]))"
    proof
      assume "\<exists>d\<in>set ds. name d \<notin> ?names \<and> prefix d (dest args @ [name s])"
      then obtain d where d: "d \<in> set ds" "name d \<notin> ?names" "prefix d (dest args @ [name s])"
        by blast
      from direct_scan_mem[OF ds, of d] d(1) have c: "d \<noteq> []" "parent d = dest args"
        by simp_all
      have "d = dest args @ [name s]"
        using sibling_prefix[OF c, of "dest args @ [name s]" "[]"] d(3)
        by (simp add: parent_def)
      then have "name d = name s" by (simp add: name_def)
      with d(2) s show False by blast
    qed
    with look[of "dest args @ [name s]"] e1 show ?thesis
      by (simp add: path_exists_def)
  qed
  from scan i ii show ?thesis by blast
qed

theorem sync_prune_result_witness:
  "mode example_args = Sync \<and> prune example_args \<and> \<not> dry_run example_args \<and>
   (\<exists>w'. main [''h''] example_args stale_world = Some (Inr 0, w') \<and>
      \<not> is_dir (files w') [''d'', ''c''] \<and> path_exists (files w') [''d'', ''a''])"
proof -
  let ?skills = "[[''s'', ''a'']]"
  let ?w0 = "\<lparr>nested_copy = stops_at_once, files = stale_fs, stdin = (\<lambda>n. None),
              console = [Stdout SourcesHeader, Stdout (SourceLine [''s''] False),
                         Stdout (DestinationLine [''d'']), Stdout (SettingsLine Sync Overwrite False),
                         Stdout (SkillsFound 1)]\<rparr>"
  let ?w' = "\<lparr>nested_copy = stops_at_once, files = filter (\<lambda>qe. \<not> prefix [''d'', ''c''] (fst qe)) stale_fs
                        @ [([''d'', ''a''], Directory), ([''d'', ''a'', ''SKILL.md''], File ''A'')],
              stdin = (\<lambda>n. None),
              console = [Stdout SourcesHeader, Stdout (SourceLine [''s''] False),
                         Stdout (DestinationLine [''d'']), Stdout (SettingsLine Sync Overwrite False),
                         Stdout (SkillsFound 1), Stdout (ActionLine DoCopy ''a'' [''d'', ''a'']),
                         Stdout (Summary 1 0 0 (Some 1))]\<rparr>"
  have a: "mode example_args = Sync" "prune example_args" "\<not> dry_run example_args"
    by (simp_all add: example_args_def)
  have s: "startup [''h''] example_args stale_world = Inr (?skills, ?w0)"
    by (simp add: eval_defs stale_fs_def stale_world_def example_args_def)
  have m: "main [''h''] example_args stale_world = Some (Inr 0, ?w')"
    by (simp add: eval_defs stale_fs_def stale_world_def example_args_def)
  have c: "[''d'', ''c''] \<noteq> [] \<and> parent [''d'', ''c''] = dest example_args \<and>
           \<not> startswith_dot (name [''d'', ''c'']) \<and> name [''d'', ''c''] \<notin> name ` set ?skills"
    by (simp add: parent_def name_def startswith_dot_def example_args_def)
  have mk: "is_file (files ?w') ([''d'', ''c''] @ [''SKILL.md'']) \<or> \<not> is_dir (files ?w') [''d'', ''c'']"
    by (simp add: eval_defs stale_fs_def)
  from sync_prune_result[OF a s m] c mk
  have "\<not> is_dir (files ?w') [''d'', ''c''] \<and> path_exists (files ?w') (dest example_args @ [name [''s'', ''a'']])"
    by (auto simp: name_def)
  then have "\<not> is_dir (files ?w') [''d'', ''c''] \<and> path_exists (files ?w') [''d'', ''a'']"
    by (simp add: name_def example_args_def)
  with a m show ?thesis by blast
qed

text \<open>
  Claim C2, as stated, fails. A hidden directory, a plain file and a directory
  without a marker in the destination outlive a successful sync with pruning, so the
  direct children of the destination are more than the names found. And when the
  valid roots hold no skill the run returns 0 before it prunes: the destination
  keeps all its children although no name was found.
\<close>

theorem prune_keeps_unlisted_entries:
  "(\<exists>w' entries skills.
      main [''h''] example_args stale_world = Some (Inr 0, w') \<and>
      iterdir (files w') [''d''] = Inr entries \<and>
      scan_sources (files stale_world) (valid_roots [''h''] example_args (files stale_world))
        = Inr skills \<and>
      name ` set entries \<noteq> name ` set skills) \<and>
   (\<exists>w' entries.
      main [''h''] (example_args\<lparr>source := [''e'']\<rparr>) stale_world = Some (Inr 0, w') \<and>
      iterdir (files w') [''d''] = Inr entries \<and> entries \<noteq> [] \<and>
      scan_sources (files stale_world)
        (valid_roots [''h''] (example_args\<lparr>source := [''e'']\<rparr>) (files stale_world)) = Inr [])"
proof (intro conjI)
  let ?w' = "\<lparr>nested_copy = stops_at_once, files = filter (\<lambda>qe. \<not> prefix [''d'', ''c''] (fst qe)) stale_fs
                        @ [([''d'', ''a''], Directory), ([''d'', ''a'', ''SKILL.md''], File ''A'')],
              stdin = (\<lambda>n. None),
              console = [Stdout SourcesHeader, Stdout (SourceLine [''s''] False),
                         Stdout (DestinationLine [''d'']), Stdout (SettingsLine Sync Overwrite False),
                         Stdout (SkillsFound 1), Stdout (ActionLine DoCopy ''a'' [''d'', ''a'']),
                         Stdout (Summary 1 0 0 (Some 1))]\<rparr>"
  let ?entries = "[[''d'', ''.sys''], [''d'', ''notes.txt''], [''d'', ''plain''], [''d'', ''a'']]"
  have m: "main [''h''] example_args stale_world = Some (Inr 0, ?w')"
    by (simp add: eval_defs stale_fs_def stale_world_def example_args_def)
  have i: "iterdir (files ?w') [''d''] = Inr ?entries"
    by (simp add: eval_defs stale_fs_def)
  have s: "scan_sources (files stale_world) (valid_roots [''h''] example_args (files stale_world))
             = Inr [[''s'', ''a'']]"
    by (simp add: eval_defs stale_fs_def stale_world_def example_args_def)
  have "''plain'' \<in> name ` set ?entries" "''plain'' \<notin> name ` set [[''s'', ''a'']]"
    by (simp_all add: name_def)
  then have n: "name ` set ?entries \<noteq> name ` set [[''s'', ''a'']]"
    by blast
  from m i s n show "\<exists>w' entries skills.
      main [''h''] example_args stale_world = Some (Inr 0, w') \<and>
      iterdir (files w') [''d''] = Inr entries \<and>
      scan_sources (files stale_world) (valid_roots [''h''] example_args (files stale_world))
        = Inr skills \<and>
      name ` set entries \<noteq> name ` set skills"
    by blast
next
  let ?args = "example_args\<lparr>source := [''e'']\<rparr>"
  have m: "main [''h''] ?args stale_world = Some (Inr 0, emit (Stdout NoSkillsFound) stale_world)"
    by (simp add: eval_defs stale_fs_def stale_world_def example_args_def)
  have i: "iterdir (files (emit (Stdout NoSkillsFound) stale_world)) [''d''] =
             Inr [[''d'', ''c''], [''d'', ''.sys''], [''d'', ''notes.txt''], [''d'', ''plain'']]"
    by (simp add: eval_defs stale_fs_def stale_world_def)
  have s: "scan_sources (files stale_world) (valid_roots [''h''] ?args (files stale_world)) = Inr []"
    by (simp add: eval_defs stale_fs_def stale_world_def example_args_def)
  from m i s show "\<exists>w' entries.
      main [''h''] ?args stale_world = Some (Inr 0, w') \<and>
      iterdir (files w') [''d''] = Inr entries \<and> entries \<noteq> [] \<and>
      scan_sources (files stale_world) (valid_roots [''h''] ?args (files stale_world)) = Inr []"
    by blast
qed

section \<open>Running twice\<close>

lemma recorded_actions_append [simp]:
  "recorded_actions (xs @ ys) = recorded_actions xs @ recorded_actions ys"
  by (simp add: recorded_actions_def)

lemma recorded_actions_Nil [simp]: "recorded_actions [] = []"
  by (simp add: recorded_actions_def)

lemma recorded_actions_skips:
  "recorded_actions (map (\<lambda>s. Stdout (ActionLine DoSkip (name s) (joinpath d (name s)))) skills)
     = replicate (length skills) DoSkip"
  by (induction skills) (simp_all add: recorded_actions_def)

lemma validate_sources_console:
  "\<exists>msgs. console (snd (validate_sources srcs w)) = console w @ msgs \<and> recorded_actions msgs = []"
proof (induction srcs w rule: validate_sources.induct)
  case (1 w)
  then show ?case by simp
next
  case (2 p r rest w)
  show ?case
  proof (cases "\<not> path_exists (files w) p")
    case True
    with 2(1)[OF True] show ?thesis
      by (auto simp: recorded_actions_def)
  next
    case ex: False
    show ?thesis
    proof (cases "\<not> is_dir (files w) p")
      case True
      with 2(2)[OF ex True] ex show ?thesis
        by (auto simp: recorded_actions_def)
    next
      case False
      with 2(3)[OF ex False] ex show ?thesis
        by (auto split: prod.splits)
    qed
  qed
qed

lemma print_settings_console:
  "\<exists>msgs. console (print_settings args v n w) = console w @ msgs \<and> recorded_actions msgs = []"
proof -
  have "recorded_actions (map (\<lambda>pr. Stdout (SourceLine (fst pr) (snd pr))) v) = []"
    by (induction v) (simp_all add: recorded_actions_def)
  then show ?thesis
    by (simp add: print_settings_def recorded_actions_def)
qed

lemma copy_skill_skip_policy:
  "copy_skill s dest_root Skip False w =
     Some (if path_exists (files w) (joinpath dest_root (name s)) then (Inr DoSkip, w)
           else copy_skill_apply s (joinpath dest_root (name s)) DoCopy False w)"
  by (simp add: copy_skill_def resolve_conflict_def Let_def)

lemma copy_skill_skip_grows:
  assumes "copy_skill s dest_root Skip False w = Some (Inr act, w')"
  shows "path_exists (files w') (joinpath dest_root (name s)) \<and>
         (\<forall>p. path_exists (files w) p \<longrightarrow> path_exists (files w') p)"
proof (cases "path_exists (files w) (joinpath dest_root (name s))")
  case True
  with assms show ?thesis by (simp add: copy_skill_skip_policy)
next
  case False
  with assms have cp: "copytree (nested_copy w) (files w) s (joinpath dest_root (name s)) = Inr (files w')"
    by (auto simp: copy_skill_skip_policy copy_skill_apply_def split: sum.splits)
  from copytree_creates[OF cp] copytree_keeps[OF cp] show ?thesis
    by (auto simp: is_dir_def path_exists_def)
qed

lemma copy_loop_skip_grows:
  "copy_loop skills dest_root Skip False counts w = Some (Inr counts', w') \<Longrightarrow>
   (\<forall>s\<in>set skills. path_exists (files w') (joinpath dest_root (name s))) \<and>
   (\<forall>p. path_exists (files w) p \<longrightarrow> path_exists (files w') p)"
proof (induction skills arbitrary: counts w)
  case Nil
  then show ?case by simp
next
  case (Cons s skills)
  from Cons.prems obtain act w1 where
    s: "copy_skill s dest_root Skip False w = Some (Inr act, w1)"
    and rest: "copy_loop skills dest_root Skip False (counts(act := counts act + 1))
                 (emit (Stdout (ActionLine act (name s) (joinpath dest_root (name s)))) w1)
               = Some (Inr counts', w')"
    by (auto split: option.splits sum.splits prod.splits)
  from copy_skill_skip_grows[OF s] Cons.IH[OF rest] show ?case
    by simp
qed

lemma copy_loop_all_skip:
  "\<forall>s\<in>set skills. path_exists (files w) (joinpath dest_root (name s)) \<Longrightarrow>
   copy_loop skills dest_root Skip False counts w =
     Some (Inr (counts(DoSkip := counts DoSkip + length skills)),
           w\<lparr>console := console w
                @ map (\<lambda>s. Stdout (ActionLine DoSkip (name s) (joinpath dest_root (name s)))) skills\<rparr>)"
proof (induction skills arbitrary: counts w)
  case Nil
  then show ?case by simp
next
  case (Cons s skills)
  let ?w = "emit (Stdout (ActionLine DoSkip (name s) (joinpath dest_root (name s)))) w"
  from Cons.prems have "\<forall>s\<in>set skills. path_exists (files ?w) (joinpath dest_root (name s))"
    by simp
  note IH = Cons.IH[OF this, of "counts(DoSkip := counts DoSkip + 1)"]
  have step: "(counts(DoSkip := counts DoSkip + 1))
                (DoSkip := (counts(DoSkip := counts DoSkip + 1)) DoSkip + length skills)
              = counts(DoSkip := counts DoSkip + length (s # skills))"
    by (rule ext) simp
  have "copy_loop (s # skills) dest_root Skip False counts w =
          copy_loop skills dest_root Skip False (counts(DoSkip := counts DoSkip + 1)) ?w"
    using Cons.prems by (simp add: copy_skill_skip_policy del: fun_upd_apply)
  also note IH
  also have "Some (Inr ((counts(DoSkip := counts DoSkip + 1))
                (DoSkip := (counts(DoSkip := counts DoSkip + 1)) DoSkip + length skills)),
           ?w\<lparr>console := console ?w
                @ map (\<lambda>s. Stdout (ActionLine DoSkip (name s) (joinpath dest_root (name s)))) skills\<rparr>)
        = Some (Inr (counts(DoSkip := counts DoSkip + length (s # skills))),
           w\<lparr>console := console w
                @ map (\<lambda>s. Stdout (ActionLine DoSkip (name s) (joinpath dest_root (name s))))
                    (s # skills)\<rparr>)"
    unfolding step by (simp add: emit_def)
  finally show ?case .
qed

lemma startup_go:
  assumes "\<not> (prune args \<and> mode args \<noteq> Sync)"
    and "valid_roots home args (files w) \<noteq> []"
    and "scan_sources (files w) (valid_roots home args (files w)) = Inr skills"
    and "skills \<noteq> []"
    and "path_exists (files w) (dest args)"
  shows "startup home args w =
           Inr (skills, print_settings args (valid_roots home args (files w)) (length skills)
                          (snd (validate_sources (build_sources home args) w)))"
  unfolding startup_def
  using assms
  by (subst validate_sources_eq) (simp add: validate_sources_frame ensure_dest_def)

lemma startup_nothing_found:
  assumes "startup home args w = Inl (Inr 0, w1)"
  shows "\<not> (prune args \<and> mode args \<noteq> Sync) \<and> valid_roots home args (files w) \<noteq> [] \<and>
         scan_sources (files w) (valid_roots home args (files w)) = Inr [] \<and>
         w1 = emit (Stdout NoSkillsFound) (snd (validate_sources (build_sources home args) w))"
  using assms unfolding startup_def
  by (subst (asm) validate_sources_eq)
     (auto simp: validate_sources_frame split: if_splits sum.splits prod.splits)

lemma main_nothing_found:
  assumes "\<not> (prune args \<and> mode args \<noteq> Sync)" "valid_roots home args (files w) \<noteq> []"
    "scan_sources (files w) (valid_roots home args (files w)) = Inr []"
  shows "main home args w =
           Some (Inr 0, emit (Stdout NoSkillsFound) (snd (validate_sources (build_sources home args) w)))"
  unfolding main_def startup_def
  using assms
  by (subst validate_sources_eq) (simp add: validate_sources_frame)

text \<open>
  Claim C6. Take a run in copy mode with the policy \<^verbatim>\<open>skip\<close>, not a dry run, that
  returned 0, and run again on the state it left, the source being unchanged: the
  valid roots and the skills found in them are the same. The second run returns 0,
  leaves every file as it was, and each action it records, one per skill found, is
  \<^verbatim>\<open>skip\<close>; its summary counts no copy, no overwrite and every skill as skipped.
\<close>

theorem copy_skip_idempotent:
  assumes "mode args = Copy" and "conflict args = Skip" and "\<not> dry_run args"
    and first: "main home args w = Some (Inr 0, w1)"
    and roots: "valid_roots home args (files w1) = valid_roots home args (files w)"
    and found: "scan_sources (files w1) (valid_roots home args (files w))
                  = scan_sources (files w) (valid_roots home args (files w))"
  shows "\<exists>w2 new skills.
           main home args w1 = Some (Inr 0, w2) \<and> files w2 = files w1 \<and>
           console w2 = console w1 @ new \<and>
           scan_sources (files w) (valid_roots home args (files w)) = Inr skills \<and>
           recorded_actions new = replicate (length skills) DoSkip \<and>
           (skills \<noteq> [] \<longrightarrow> last new = Stdout (Summary 0 0 (length skills) None))"
proof -
  let ?valid = "valid_roots home args (files w)"
  let ?wv = "snd (validate_sources (build_sources home args) w1)"
  have fv: "files ?wv = files w1"
    by (simp add: validate_sources_frame)
  obtain msgs where msgs: "console ?wv = console w1 @ msgs" "recorded_actions msgs = []"
    using validate_sources_console by blast
  show ?thesis
  proof (cases "startup home args w")
    case (Inl ended)
    with first have "startup home args w = Inl (Inr 0, w1)"
      by (simp add: main_def)
    from startup_nothing_found[OF this]
    have go: "\<not> (prune args \<and> mode args \<noteq> Sync)" and v: "?valid \<noteq> []"
      and none: "scan_sources (files w) ?valid = Inr []"
      by simp_all
    have "main home args w1 = Some (Inr 0, emit (Stdout NoSkillsFound) ?wv)"
      using go v none by (intro main_nothing_found) (simp_all add: roots found)
    moreover have "console (emit (Stdout NoSkillsFound) ?wv) = console w1 @ (msgs @ [Stdout NoSkillsFound])"
      using msgs by simp
    moreover have "recorded_actions (msgs @ [Stdout NoSkillsFound]) = replicate (length ([]::path list)) DoSkip"
      using msgs by (simp add: recorded_actions_def)
    ultimately show ?thesis
      using none fv by (intro exI[of _ "emit (Stdout NoSkillsFound) ?wv"] exI[of _ "msgs @ [Stdout NoSkillsFound]"]
          exI[of _ "[]"]) simp
  next
    case (Inr go)
    obtain skills w0 where start: "startup home args w = Inr (skills, w0)"
      using Inr by (cases go) auto
    from startup_Inr[OF start] assms(3)
    have scan: "scan_sources (files w) ?valid = Inr skills" and ne: "skills \<noteq> []"
      and d0: "path_exists (files w0) (dest args)"
      by simp_all
    from startup_usage[OF start] have nu: "\<not> (prune args \<and> mode args \<noteq> Sync)" and v: "?valid \<noteq> []"
      by simp_all
    from nu assms(1) have np: "\<not> prune args" by auto
    from first have "sync_skills args skills w0 = Some (Inr 0, w1)"
      by (simp add: main_sync[OF start])
    then obtain counts wc where
      loop: "copy_loop skills (dest args) Skip False (\<lambda>a. 0) w0 = Some (Inr counts, wc)"
      and f1: "files w1 = files wc"
      using assms(1-3)
      by (auto simp: sync_skills_def prune_step_def split: option.splits sum.splits prod.splits if_splits)
    from copy_loop_skip_grows[OF loop] d0 f1
    have landed: "\<forall>s\<in>set skills. path_exists (files w1) (joinpath (dest args) (name s))"
      and d1: "path_exists (files w1) (dest args)"
      by simp_all
    let ?w0 = "print_settings args ?valid (length skills) ?wv"
    have start2: "startup home args w1 = Inr (skills, ?w0)"
      using startup_go[of args home w1 skills] nu v scan ne d1 roots found by simp
    obtain sets where sets: "console ?w0 = console ?wv @ sets" "recorded_actions sets = []"
      using print_settings_console by blast
    let ?lines = "map (\<lambda>s. Stdout (ActionLine DoSkip (name s) (joinpath (dest args) (name s)))) skills"
    let ?wl = "?w0\<lparr>console := console ?w0 @ ?lines\<rparr>"
    let ?w2 = "emit (Stdout (Summary 0 0 (length skills) None)) ?wl"
    have "\<forall>s\<in>set skills. path_exists (files ?w0) (joinpath (dest args) (name s))"
      using landed fv by simp
    from copy_loop_all_skip[OF this, of "\<lambda>a. 0"]
    have loop2: "copy_loop skills (dest args) Skip False (\<lambda>a. 0) ?w0 =
                   Some (Inr ((\<lambda>a. 0)(DoSkip := length skills)), ?wl)"
      by simp
    have "sync_skills args skills ?w0 = Some (Inr 0, ?w2)"
      using loop2 assms(1-3) np by (simp add: sync_skills_def prune_step_def)
    then have m: "main home args w1 = Some (Inr 0, ?w2)"
      by (simp add: main_sync[OF start2])
    let ?new = "msgs @ sets @ ?lines @ [Stdout (Summary 0 0 (length skills) None)]"
    have c: "console ?w2 = console w1 @ ?new"
      using msgs sets by simp
    have r: "recorded_actions ?new = replicate (length skills) DoSkip"
      using msgs sets by (simp add: recorded_actions_skips) (simp add: recorded_actions_def)
    have f: "files ?w2 = files w1"
      using fv by simp
    have l: "last ?new = Stdout (Summary 0 0 (length skills) None)"
      by simp
    from m f c scan r l show ?thesis
      by blast
  qed
qed

theorem copy_skip_idempotent_witness:
  "mode copy_skip_args = Copy \<and> conflict copy_skip_args = Skip \<and> \<not> dry_run copy_skip_args \<and>
   main [''h''] copy_skip_args example_world = Some (Inr 0, copied_world) \<and>
   (\<exists>w2 new. main [''h''] copy_skip_args copied_world = Some (Inr 0, w2) \<and>
      files w2 = files copied_world \<and> console w2 = console copied_world @ new \<and>
      recorded_actions new = [DoSkip, DoSkip])"
proof -
  have a: "mode copy_skip_args = Copy" "conflict copy_skip_args = Skip" "\<not> dry_run copy_skip_args"
    by (simp_all add: copy_skip_args_def example_args_def)
  have first: "main [''h''] copy_skip_args example_world = Some (Inr 0, copied_world)"
    by (simp add: eval_defs copy_skip_args_def example_args_def example_world_def example_fs_def
          copied_world_def)
  have roots: "valid_roots [''h''] copy_skip_args (files copied_world)
                 = valid_roots [''h''] copy_skip_args (files example_world)"
    by (simp add: eval_defs copy_skip_args_def example_args_def example_world_def example_fs_def
          copied_world_def)
  have scan: "scan_sources (files example_world)
                (valid_roots [''h''] copy_skip_args (files example_world))
              = Inr [[''s'', ''a''], [''s'', ''b'']]"
    by (simp add: eval_defs copy_skip_args_def example_args_def example_world_def example_fs_def)
  have found: "scan_sources (files copied_world)
                 (valid_roots [''h''] copy_skip_args (files example_world))
               = scan_sources (files example_world)
                   (valid_roots [''h''] copy_skip_args (files example_world))"
    unfolding scan
    by (simp add: eval_defs copy_skip_args_def example_args_def example_world_def example_fs_def
          copied_world_def)
  from copy_skip_idempotent[OF a first roots found] scan
  have "\<exists>w2 new. main [''h''] copy_skip_args copied_world = Some (Inr 0, w2) \<and>
      files w2 = files copied_world \<and> console w2 = console copied_world @ new \<and>
      recorded_actions new = [DoSkip, DoSkip]"
    by (auto simp: numeral_2_eq_2)
  with a first show ?thesis by blast
qed

end
